theory Spec2Isabelle
  imports Complex_Main
begin

section \<open>Reverse mode of ADFun: the full sweep and the selective sweep\<close>

text \<open>
  A shallow embedding of \<^verbatim>\<open>cppad/local/reverse.hpp\<close>: the member functions
  \<^verbatim>\<open>ADFun<Base>::Reverse\<close> (the full sweep) and \<^verbatim>\<open>ADFun<Base>::myReverse\<close>
  (the selective sweep for one dependent variable).

  Conventions of the embedding.
  \<^item> The members of \<^verbatim>\<open>ADFun\<close> keep their names without the trailing underscore
    (\<^verbatim>\<open>ind_taddr_\<close> is \<open>ind_taddr\<close>), which an Isabelle name cannot end with.
  \<^item> \<^verbatim>\<open>size_t\<close> is a natural number below \<open>2 ^ 64\<close>; every \<^verbatim>\<open>+\<close>, \<^verbatim>\<open>-\<close> and
    \<^verbatim>\<open>*\<close> of the source on \<^verbatim>\<open>size_t\<close> is \<open>sz_add\<close>, \<open>sz_sub\<close>, \<open>sz_mul\<close>, which
    wrap around.
  \<^item> \<^verbatim>\<open>Base\<close> is a type with \<open>0\<close>, \<open>1\<close> and \<open>+\<close>; rounding of floating point
    numbers is outside the model.
  \<^item> A vector is a list. Reading or writing outside a vector is undefined behaviour
    in the source; the model stops the call there with \<open>OutOfRange\<close>.
  \<^item> Every function returns the state it leaves behind together with its result,
    also when it stops with an error, so that what a failed call has written can be
    stated.
  \<^item> Left out, as they change no state: the calls \<^verbatim>\<open>CheckSimpleVector<Base, VectorBase>()\<close>,
    which check a type, the blocks under \<^verbatim>\<open>if(false)\<close>, the code in comments, and the
    block under \<^verbatim>\<open>DEBUG_KASPER\<close>, which counts and prints.
\<close>

subsection \<open>Machine arithmetic on \<^verbatim>\<open>size_t\<close>\<close>

definition sz_add :: "nat \<Rightarrow> nat \<Rightarrow> nat" where
  "sz_add a b = (a + b) mod 2 ^ 64"

definition sz_mul :: "nat \<Rightarrow> nat \<Rightarrow> nat" where
  "sz_mul a b = (a * b) mod 2 ^ 64"

definition sz_sub :: "nat \<Rightarrow> nat \<Rightarrow> nat" where
  "sz_sub a b = (a + (2 ^ 64 - b mod 2 ^ 64)) mod 2 ^ 64"

subsection \<open>Errors, loops and vector writes\<close>

text \<open>
  The assertion macro \<^verbatim>\<open>CPPAD_ASSERT_KNOWN(exp, msg)\<close> is used in \<^verbatim>\<open>reverse.hpp\<close> and
  defined elsewhere. It discards its arguments: the second assertion of \<^verbatim>\<open>myReverse\<close>
  hands it \<^verbatim>\<open>w.size() == m || w.size() == (m * p)\<close>, and \<^verbatim>\<open>myReverse\<close> declares no
  \<^verbatim>\<open>m\<close> (the declaration is in a comment, \<^verbatim>\<open>// size_t m = dep_taddr_.size();\<close>),
  so the file compiles only where the macro expands to nothing. There none of the
  three assertions of \<^verbatim>\<open>Reverse\<close> and none of the four of \<^verbatim>\<open>myReverse\<close> is evaluated:
  no call stops at one of them, and the model has no step for them. The constructor
  \<open>Known\<close> below is the error that such an assertion would report, with the text
  given in the source; no function of the model returns it.
\<close>

text \<open>
  Modelled from the spec: the assertion macro \<^verbatim>\<open>CPPAD_ASSERT_UNKNOWN(exp)\<close>, defined
  elsewhere too. Its three uses outside comments, all in \<^verbatim>\<open>Reverse\<close>, state the
  invariants that the spec gives for the addresses of an object: the addresses of
  the dependent and of the independent variables lie in the "address space of size
  \<^verbatim>\<open>total_num_var_\<close>", and each address of an independent variable "corresponds to a
  tape operation of the 'input marker' kind". An object that breaks one of them is
  outside the data model; the model stops the call there with \<open>Unknown\<close>, as it
  stops with \<open>OutOfRange\<close> at an access outside a vector.
\<close>

datatype error = Known string | Unknown | OutOfRange

text \<open>
  A \<^verbatim>\<open>for\<close> loop over the elements of \<open>xs\<close>, in order, threading the state \<open>s\<close>
  through the body; the first error ends the loop and keeps the state reached.
\<close>

fun for_each :: "'i list \<Rightarrow> ('i \<Rightarrow> 's \<Rightarrow> error option \<times> 's) \<Rightarrow> 's \<Rightarrow> error option \<times> 's" where
  "for_each [] body s = (None, s)"
| "for_each (x # xs) body s =
     (case body x s of
        (Some e, s') \<Rightarrow> (Some e, s')
      | (None, s') \<Rightarrow> for_each xs body s')"

text \<open>The assignment \<^verbatim>\<open>v[ix] = x\<close>.\<close>

definition store :: "'a list \<Rightarrow> nat \<Rightarrow> 'a \<Rightarrow> error option \<times> 'a list" where
  "store v ix x = (if ix < length v then (None, v[ix := x]) else (Some OutOfRange, v))"

subsection \<open>The data of an \<^verbatim>\<open>ADFun\<close> object\<close>

text \<open>
  \<^verbatim>\<open>tape_point\<close>: of the recorded fields only \<^verbatim>\<open>op\<close> and \<^verbatim>\<open>var_index\<close> are read by
  the functions modelled here. The type \<^verbatim>\<open>OpCode\<close> is a type parameter.
\<close>

record 'op tape_point =
  op :: 'op
  var_index :: nat

text \<open>
  The members read or written by \<^verbatim>\<open>Reverse\<close> and \<^verbatim>\<open>myReverse\<close>. \<open>Partial\<close> is the
  member buffer that \<^verbatim>\<open>myReverse\<close> works on (it declares no buffer of its own: its
  only declaration of that name sits in an \<^verbatim>\<open>if(false)\<close> block). The members
  \<^verbatim>\<open>op_mark_\<close> and \<^verbatim>\<open>var2op_\<close> occur in an \<^verbatim>\<open>if(false)\<close> block only and are left out.
  The player \<^verbatim>\<open>play_\<close> is of an abstract type.
\<close>

record ('b, 'op, 'tape) ADFun =
  ind_taddr :: "nat list"
  dep_taddr :: "nat list"
  total_num_var :: nat
  taylor_per_var :: nat
  taylor_col_dim :: nat
  taylor :: "'b list"
  play :: 'tape
  Partial :: "'b list"
  op_inv_index :: "nat list"
  op_mark_index :: "nat list"
  tp :: "'op tape_point list"

text \<open>
  What \<^verbatim>\<open>reverse.hpp\<close> calls and does not define is a parameter of the model:
  \<^item> \<open>fresh\<close>: the contents of newly allocated storage (\<^verbatim>\<open>pod_vector::extend\<close>,
    \<^verbatim>\<open>VectorBase value(n * p)\<close>), entry by entry; nothing is assumed about it;
  \<^item> \<open>GetOp\<close>, \<open>InvOp\<close>, \<open>NumRes\<close>: the player's operator lookup, the operator code of
    an independent variable, and the number of results of an operator;
  \<^item> \<open>ReverseSweep\<close>: the propagation of the full sweep, from the buffer it is given
    to the buffer it leaves; its arguments are those of the call in the source;
  \<^item> \<open>myReverseSweep\<close>: the propagation of the selective sweep; it receives
    \<^verbatim>\<open>this\<close>, so it is a function from the object to the object (the tape, the
    Taylor coefficients and the buffer it is pointed to are members of it).
\<close>

record ('b, 'op, 'tape) tape_layer =
  fresh :: "nat \<Rightarrow> 'b"
  GetOp :: "'tape \<Rightarrow> nat \<Rightarrow> 'op"
  InvOp :: 'op
  NumRes :: "'op \<Rightarrow> nat"
  ReverseSweep ::
    "nat \<Rightarrow> nat \<Rightarrow> nat \<Rightarrow> 'tape \<Rightarrow> nat \<Rightarrow> 'b list \<Rightarrow> nat \<Rightarrow> 'b list \<Rightarrow> 'b list"
  myReverseSweep ::
    "nat \<Rightarrow> nat \<Rightarrow> nat \<Rightarrow> nat \<Rightarrow> nat \<Rightarrow> nat \<Rightarrow> ('b, 'op, 'tape) ADFun \<Rightarrow> ('b, 'op, 'tape) ADFun"

subsection \<open>The full sweep: \<^verbatim>\<open>Reverse\<close>\<close>

text \<open>
  The conditions that the three \<^verbatim>\<open>CPPAD_ASSERT_KNOWN\<close> of \<^verbatim>\<open>Reverse\<close> state:
  \<^verbatim>\<open>size_t(w.size()) == m || size_t(w.size()) == (m * p)\<close>, \<^verbatim>\<open>p > 0\<close> and
  \<^verbatim>\<open>taylor_per_var_ >= p\<close>, with \<^verbatim>\<open>m = dep_taddr_.size()\<close>. The macro discards them
  (see above), so \<^verbatim>\<open>Reverse\<close> itself does not evaluate this predicate; it serves to
  say of a call whether it meets them.
\<close>

definition Reverse_asserted :: "nat \<Rightarrow> 'b list \<Rightarrow> ('b, 'op, 'tape) ADFun \<Rightarrow> bool" where
  "Reverse_asserted p w F \<longleftrightarrow>
     (let m = length (dep_taddr F) in
      (length w = m \<or> length w = sz_mul m p) \<and> 0 < p \<and> p \<le> taylor_per_var F)"

text \<open>\<^verbatim>\<open>for(i...) for(j...) Partial[i * p + j] = zero\<close>.\<close>

definition Reverse_zero ::
  "('b::zero, 'op, 'tape) ADFun \<Rightarrow> nat \<Rightarrow> 'b list \<Rightarrow> error option \<times> 'b list" where
  "Reverse_zero F p P =
     for_each [0..<total_num_var F]
       (\<lambda>i. for_each [0..<p] (\<lambda>j P. store P (sz_add (sz_mul i p) j) 0)) P"

text \<open>
  The seeding loop over the dependent variables: \<^verbatim>\<open>+=\<close> of \<^verbatim>\<open>w[i]\<close> at order
  \<^verbatim>\<open>p - 1\<close> when \<^verbatim>\<open>w.size() == m\<close>, and otherwise \<^verbatim>\<open>=\<close> of \<^verbatim>\<open>w[i * p + k]\<close> at
  every order \<^verbatim>\<open>k\<close>.
\<close>

definition Reverse_seed ::
  "('b::plus, 'op, 'tape) ADFun \<Rightarrow> nat \<Rightarrow> 'b list \<Rightarrow> 'b list \<Rightarrow> error option \<times> 'b list" where
  "Reverse_seed F p w P =
     for_each [0..<length (dep_taddr F)]
       (\<lambda>i P.
          if \<not> dep_taddr F ! i < total_num_var F then (Some Unknown, P)
          else if length w = length (dep_taddr F) then
            (let ix = sz_sub (sz_add (sz_mul (dep_taddr F ! i) p) p) 1 in
             if ix < length P \<and> i < length w then store P ix (P ! ix + w ! i)
             else (Some OutOfRange, P))
          else
            for_each [0..<p]
              (\<lambda>k P.
                 let iw = sz_add (sz_mul i p) k in
                 if iw < length w then store P (sz_add (sz_mul (dep_taddr F ! i) p) k) (w ! iw)
                 else (Some OutOfRange, P)) P) P"

text \<open>
  The local buffer of \<^verbatim>\<open>Reverse\<close> as it is handed to \<^verbatim>\<open>ReverseSweep\<close>: allocated,
  set to zero and seeded.
\<close>

definition Reverse_seeded ::
  "('b::{zero,plus}, 'op, 'tape) tape_layer \<Rightarrow> nat \<Rightarrow> 'b list \<Rightarrow> ('b, 'op, 'tape) ADFun
     \<Rightarrow> error option \<times> 'b list" where
  "Reverse_seeded X p w F =
     (let P0 = map (fresh X) [0..<sz_mul (total_num_var F) p] in
      case Reverse_zero F p P0 of
        (Some e, P1) \<Rightarrow> (Some e, P1)
      | (None, P1) \<Rightarrow> Reverse_seed F p w P1)"

text \<open>
  The extraction loop: \<^verbatim>\<open>value[j * p + k] = Partial[ind_taddr_[j] * p + p - 1 - k]\<close>
  when \<^verbatim>\<open>w.size() == m\<close>, and \<^verbatim>\<open>Partial[ind_taddr_[j] * p + k]\<close> otherwise.
\<close>

definition Reverse_extract ::
  "('b, 'op, 'tape) tape_layer \<Rightarrow> ('b, 'op, 'tape) ADFun \<Rightarrow> nat \<Rightarrow> 'b list \<Rightarrow> 'b list
     \<Rightarrow> 'b list \<Rightarrow> error option \<times> 'b list" where
  "Reverse_extract X F p w P v =
     for_each [0..<length (ind_taddr F)]
       (\<lambda>j v.
          if \<not> ind_taddr F ! j < total_num_var F then (Some Unknown, v)
          else if GetOp X (play F) (ind_taddr F ! j) \<noteq> InvOp X then (Some Unknown, v)
          else if length w = length (dep_taddr F) then
            for_each [0..<p]
              (\<lambda>k v.
                 let ix = sz_sub (sz_sub (sz_add (sz_mul (ind_taddr F ! j) p) p) 1) k in
                 if ix < length P then store v (sz_add (sz_mul j p) k) (P ! ix)
                 else (Some OutOfRange, v)) v
          else
            for_each [0..<p]
              (\<lambda>k v.
                 let ix = sz_add (sz_mul (ind_taddr F ! j) p) k in
                 if ix < length P then store v (sz_add (sz_mul j p) k) (P ! ix)
                 else (Some OutOfRange, v)) v) v"

text \<open>
  \<^verbatim>\<open>Reverse(p, w)\<close>. The result is the returned vector or the error, then the local
  buffer \<^verbatim>\<open>Partial\<close> as the call leaves it, then the object. The buffer is a local
  variable of the function (\<^verbatim>\<open>pod_vector<Base> Partial;\<close>), which hides the member
  of the same name: the object is returned as it was given.
\<close>

definition Reverse ::
  "('b::{zero,plus}, 'op, 'tape) tape_layer \<Rightarrow> nat \<Rightarrow> 'b list \<Rightarrow> ('b, 'op, 'tape) ADFun
     \<Rightarrow> (error + 'b list) \<times> 'b list \<times> ('b, 'op, 'tape) ADFun" where
  "Reverse X p w F =
     (let n = length (ind_taddr F) in
      case Reverse_seeded X p w F of
        (Some e, P) \<Rightarrow> (Inl e, P, F)
      | (None, P2) \<Rightarrow>
          (let P3 = ReverseSweep X (sz_sub p 1) n (total_num_var F) (play F)
                      (taylor_col_dim F) (taylor F) p P2
           in case Reverse_extract X F p w P3 (map (fresh X) [0..<sz_mul n p]) of
                (Some e, v) \<Rightarrow> (Inl e, P3, F)
              | (None, v) \<Rightarrow> (Inr v, P3, F)))"

subsection \<open>The selective sweep: \<^verbatim>\<open>myReverse\<close>\<close>

text \<open>
  The four \<^verbatim>\<open>CPPAD_ASSERT_KNOWN\<close> of \<^verbatim>\<open>myReverse\<close>, the first of them
  \<^verbatim>\<open>CPPAD_ASSERT_KNOWN(p == 1, "myReverse only works for first order calculations.")\<close>,
  are discarded with their arguments (see above): the first statement of
  \<^verbatim>\<open>myReverse\<close> that does anything is the seeding. The argument \<^verbatim>\<open>w\<close> is read by the
  assertions only, so no step of the model reads it.
\<close>

text \<open>
  \<^verbatim>\<open>dep_var_taddr = dep_taddr_[dep_var_index]; Partial[dep_var_taddr * p + p - 1] = 1.0\<close>,
  on the member buffer.
\<close>

definition myReverse_seed ::
  "nat \<Rightarrow> nat \<Rightarrow> ('b::one, 'op, 'tape) ADFun \<Rightarrow> error option \<times> ('b, 'op, 'tape) ADFun" where
  "myReverse_seed p dep_var_index F =
     (if \<not> dep_var_index < length (dep_taddr F) then (Some OutOfRange, F)
      else
        let dep_var_taddr = dep_taddr F ! dep_var_index in
        case store (Partial F) (sz_sub (sz_add (sz_mul dep_var_taddr p) p) 1) 1 of
          (e, P) \<Rightarrow> (e, F\<lparr>Partial := P\<rparr>))"

text \<open>The object after seeding and \<^verbatim>\<open>myReverseSweep\<close>, before the extraction.\<close>

definition myReverse_propagated ::
  "('b::one, 'op, 'tape) tape_layer \<Rightarrow> nat \<Rightarrow> nat \<Rightarrow> ('b, 'op, 'tape) ADFun
     \<Rightarrow> error option \<times> ('b, 'op, 'tape) ADFun" where
  "myReverse_propagated X p dep_var_index F =
     (let n = length (ind_taddr F) in
      case myReverse_seed p dep_var_index F of
        (Some e, F1) \<Rightarrow> (Some e, F1)
      | (None, F1) \<Rightarrow>
          (None, myReverseSweep X (sz_sub p 1) n (total_num_var F1) (taylor_col_dim F1) p
                   dep_var_index F1))"

text \<open>
  The extraction loop over \<^verbatim>\<open>op_inv_index_\<close>: \<^verbatim>\<open>j = *it - 1\<close> and
  \<^verbatim>\<open>value[j * p + k] = Partial[ind_taddr_[j] * p + p - 1 - k]\<close>.
\<close>

definition myReverse_extract ::
  "('b, 'op, 'tape) ADFun \<Rightarrow> nat \<Rightarrow> 'b list \<Rightarrow> error option \<times> 'b list" where
  "myReverse_extract F p v =
     for_each (op_inv_index F)
       (\<lambda>it v.
          let j = sz_sub it 1 in
          for_each [0..<p]
            (\<lambda>k v.
               if \<not> j < length (ind_taddr F) then (Some OutOfRange, v)
               else
                 let ix = sz_sub (sz_sub (sz_add (sz_mul (ind_taddr F ! j) p) p) 1) k in
                 if ix < length (Partial F) then store v (sz_add (sz_mul j p) k) (Partial F ! ix)
                 else (Some OutOfRange, v)) v) v"

text \<open>
  The cleanup loop over \<^verbatim>\<open>op_mark_index_\<close>: \<^verbatim>\<open>tp = tp_[*it]\<close> and, for
  \<^verbatim>\<open>i < NumRes(tp.op)\<close> and \<^verbatim>\<open>j < p\<close>, \<^verbatim>\<open>Partial[tp.var_index - i * p + j] = 0\<close>.
\<close>

definition myReverse_clear ::
  "('b::zero, 'op, 'tape) tape_layer \<Rightarrow> ('b, 'op, 'tape) ADFun \<Rightarrow> nat \<Rightarrow> 'b list
     \<Rightarrow> error option \<times> 'b list" where
  "myReverse_clear X F p P =
     for_each (op_mark_index F)
       (\<lambda>it P.
          if \<not> it < length (tp F) then (Some OutOfRange, P)
          else
            let t = tp F ! it in
            for_each [0..<NumRes X (op t)]
              (\<lambda>i. for_each [0..<p]
                      (\<lambda>j P. store P (sz_add (sz_sub (var_index t) (sz_mul i p)) j) 0)) P) P"

text \<open>
  \<^verbatim>\<open>myReverse(p, w, dep_var_index, value)\<close>. The result is the error, if any, then the
  caller's vector \<^verbatim>\<open>value\<close> and the object as the call leaves them.
\<close>

definition myReverse ::
  "('b::{zero,one}, 'op, 'tape) tape_layer \<Rightarrow> nat \<Rightarrow> 'b list \<Rightarrow> nat \<Rightarrow> 'b list
     \<Rightarrow> ('b, 'op, 'tape) ADFun \<Rightarrow> error option \<times> 'b list \<times> ('b, 'op, 'tape) ADFun" where
  "myReverse X p w dep_var_index v F =
     (case myReverse_propagated X p dep_var_index F of
        (Some e, F1) \<Rightarrow> (Some e, v, F1)
      | (None, F2) \<Rightarrow>
          (case myReverse_extract F2 p v of
             (Some e, v') \<Rightarrow> (Some e, v', F2)
           | (None, v') \<Rightarrow>
               (case myReverse_clear X F2 p (Partial F2) of
                  (e, P) \<Rightarrow> (e, v', F2\<lparr>Partial := P\<rparr>))))"

subsection \<open>The propagation as the spec describes it\<close>

text \<open>
  Modelled from the spec: the operator layer that the propagation routines read
  (the player and the operator formulas are not among the sources). The spec has the
  tape reader give, for each operation, "its kind, operand addresses, and number of
  result slots", and the local partial derivatives "supplied by the tape/operator
  layer", computed from "the forward coefficients already stored". Here, for first
  order: the number of recorded operations, the buffer row of the result of operation
  \<open>k\<close>, and for operation \<open>k\<close> its operand rows, each with the partial derivative of
  the result with respect to that operand.
\<close>

record ('b, 'tape) operator_layer =
  num_op :: "'tape \<Rightarrow> nat"
  result_row :: "'tape \<Rightarrow> nat \<Rightarrow> nat"
  local_partials :: "'tape \<Rightarrow> 'b list \<Rightarrow> nat \<Rightarrow> (nat \<times> 'b) list"

text \<open>
  Modelled from the spec: the step of the propagation for one operation (the routines
  \<^verbatim>\<open>ReverseSweep\<close> and \<^verbatim>\<open>myReverseSweep\<close> are not among the sources), "add the
  chain-rule contribution into the operand rows of the adjoint buffer": the partial
  of the result row times the local partial derivative is added to each operand row.
\<close>

definition chain_rule :: "nat \<Rightarrow> (nat \<times> 'b) list \<Rightarrow> 'b::semiring_0 list \<Rightarrow> 'b list" where
  "chain_rule r ps P = fold (\<lambda>(a, c) P. P[a := P ! a + P ! r * c]) ps P"

text \<open>
  Modelled from the spec: the propagation over the operations \<open>ks\<close>, in the order of
  the list (common to \<^verbatim>\<open>ReverseSweep\<close> and \<^verbatim>\<open>myReverseSweep\<close>, not among the sources).
\<close>

definition spec_propagate ::
  "('b::semiring_0, 'tape) operator_layer \<Rightarrow> 'tape \<Rightarrow> 'b list \<Rightarrow> nat list \<Rightarrow> 'b list \<Rightarrow> 'b list" where
  "spec_propagate L t T ks P =
     fold (\<lambda>k. chain_rule (result_row L t k) (local_partials L t T k)) ks P"

text \<open>
  Modelled from the spec: \<^verbatim>\<open>ReverseSweep\<close> (not among the sources) for first order,
  "traverse tape operations in strictly reverse recorded order, from the operation
  that produced the last variable down to the first".
\<close>

definition spec_ReverseSweep ::
  "('b::semiring_0, 'tape) operator_layer
     \<Rightarrow> nat \<Rightarrow> nat \<Rightarrow> nat \<Rightarrow> 'tape \<Rightarrow> nat \<Rightarrow> 'b list \<Rightarrow> nat \<Rightarrow> 'b list \<Rightarrow> 'b list" where
  "spec_ReverseSweep L d n numvar t J T K P = spec_propagate L t T (rev [0..<num_op L t]) P"

text \<open>
  Modelled from the spec: \<^verbatim>\<open>myReverseSweep\<close> (not among the sources), "traverse only
  the tape operations recorded as relevant to this dependent variable (supplied by the
  Relevance Index), in reverse order restricted to that subset, applying the same
  chain-rule accumulation". The relevance index is \<open>relevant\<close>, from the dependent
  variable to its operations "in reverse tape order", and \<open>inv_index\<close>, from the
  dependent variable to the entries that designate the independent variables it
  reaches; the routine leaves both in the members \<^verbatim>\<open>op_mark_index_\<close> and
  \<^verbatim>\<open>op_inv_index_\<close>, where \<^verbatim>\<open>myReverse\<close> reads them.
\<close>

definition spec_myReverseSweep ::
  "('b::semiring_0, 'tape) operator_layer \<Rightarrow> (nat \<Rightarrow> nat list) \<Rightarrow> (nat \<Rightarrow> nat list)
     \<Rightarrow> nat \<Rightarrow> nat \<Rightarrow> nat \<Rightarrow> nat \<Rightarrow> nat \<Rightarrow> nat \<Rightarrow> ('b, 'op, 'tape) ADFun \<Rightarrow> ('b, 'op, 'tape) ADFun" where
  "spec_myReverseSweep L relevant inv_index d n numvar J K dep_var_index F =
     F\<lparr>Partial := spec_propagate L (play F) (taylor F) (relevant dep_var_index) (Partial F),
       op_inv_index := inv_index dep_var_index,
       op_mark_index := relevant dep_var_index\<rparr>"

text \<open>
  Modelled from the spec: the tape layer \<open>X\<close> with its two propagation routines (not
  among the sources) replaced by the two above.
\<close>

definition spec_layer ::
  "('b::semiring_0, 'op, 'tape) tape_layer \<Rightarrow> ('b, 'tape) operator_layer
     \<Rightarrow> (nat \<Rightarrow> nat list) \<Rightarrow> (nat \<Rightarrow> nat list) \<Rightarrow> ('b, 'op, 'tape) tape_layer" where
  "spec_layer X L relevant inv_index =
     X\<lparr>ReverseSweep := spec_ReverseSweep L,
       myReverseSweep := spec_myReverseSweep L relevant inv_index\<rparr>"

text \<open>
  Modelled from the spec: what the relevance index (its construction is not among the
  sources) holds for a dependent variable at address \<open>a\<close>, "the set of tape operations
  reachable backward from it", as a sequence "in reverse tape order". The operations
  \<open>ms\<close> are listed in reverse tape order, and they are closed backward: an operation
  with operands that is not listed has its result in a row of the buffer, and it
  produces neither the dependent variable nor an operand of a listed operation.
\<close>

definition relevance_closed ::
  "('b, 'tape) operator_layer \<Rightarrow> 'tape \<Rightarrow> 'b list \<Rightarrow> nat \<Rightarrow> nat \<Rightarrow> nat list \<Rightarrow> bool" where
  "relevance_closed L t T numvar a ms \<longleftrightarrow>
     ms = filter (\<lambda>k. k \<in> set ms) (rev [0..<num_op L t])
     \<and> (\<forall>k<num_op L t. k \<notin> set ms \<longrightarrow> local_partials L t T k \<noteq> [] \<longrightarrow>
           result_row L t k < numvar \<and> result_row L t k \<noteq> a
           \<and> (\<forall>k'\<in>set ms. result_row L t k \<notin> fst ` set (local_partials L t T k')))"

subsection \<open>Example objects\<close>

text \<open>
  Operator codes for the examples; the enumeration \<^verbatim>\<open>OpCode\<close> itself is not part of
  \<^verbatim>\<open>reverse.hpp\<close>. Every operator here has one result, but for the end marker.
\<close>

datatype example_op = Begin_op | Inv_op | Mulvv_op | Addvv_op | End_op

fun example_NumRes :: "example_op \<Rightarrow> nat" where
  "example_NumRes End_op = 0"
| "example_NumRes _ = 1"

text \<open>
  The tape of \<open>y = x0\<close>: the begin marker, one independent variable at address 1,
  which is the dependent variable too, and the end marker. No operator of this tape
  propagates anything, so both sweeps leave the buffer as it is; the selective one
  records the operator of \<open>x0\<close> as marked and as an independent variable.
\<close>

definition identity_layer :: "(real, example_op, example_op list) tape_layer" where
  "identity_layer =
     \<lparr>fresh = (\<lambda>_. 7), GetOp = (\<lambda>t i. t ! i), InvOp = Inv_op, NumRes = example_NumRes,
      ReverseSweep = (\<lambda>d n N t J T K P. P),
      myReverseSweep = (\<lambda>d n N J K i F. F\<lparr>op_inv_index := [1], op_mark_index := [1]\<rparr>)\<rparr>"

definition identity_fun :: "(real, example_op, example_op list) ADFun" where
  "identity_fun =
     \<lparr>ind_taddr = [1], dep_taddr = [1], total_num_var = 2, taylor_per_var = 2,
      taylor_col_dim = 2, taylor = [0, 0, 3, 1], play = [Begin_op, Inv_op, End_op],
      Partial = [0, 0], op_inv_index = [], op_mark_index = [],
      tp = [\<lparr>op = Begin_op, var_index = 0\<rparr>, \<lparr>op = Inv_op, var_index = 1\<rparr>,
            \<lparr>op = End_op, var_index = 1\<rparr>]\<rparr>"

text \<open>
  The same object with a member buffer of \<open>total_num_var * 2\<close> entries, two orders
  for each variable.
\<close>

definition identity_fun_order2 :: "(real, example_op, example_op list) ADFun" where
  "identity_fun_order2 = identity_fun\<lparr>Partial := [0, 0, 0, 0]\<rparr>"

text \<open>
  The tape of \<open>y = x0 * x1 + x0\<close> with a third independent variable \<open>x2\<close> that
  \<open>y\<close> does not depend on: the begin marker, \<open>x0\<close>, \<open>x1\<close>, \<open>x2\<close> at addresses 1, 2, 3,
  the product at 4, the sum at 5, the end marker. The forward values are those of
  \<open>x0 = 3\<close>, \<open>x1 = 4\<close>, \<open>x2 = 5\<close>. The result of operation \<open>k\<close> is in row \<open>k\<close> (the end
  marker has no result). The product hands its partial, times the other factor, to
  its two operands; the sum hands its partial to both of its operands. The relevance
  index of \<open>y\<close> lists the sum, the product, \<open>x1\<close> and \<open>x0\<close>, and the entries 1 and 2 for
  the independent variables \<open>x0\<close> and \<open>x1\<close>. The two propagation routines are those of
  the spec.
\<close>

definition product_ops :: "(real, example_op list) operator_layer" where
  "product_ops =
     \<lparr>num_op = length, result_row = (\<lambda>t k. min k 5),
      local_partials = (\<lambda>t T k.
         if t ! k = Mulvv_op then [(1, T ! 2), (2, T ! 1)]
         else if t ! k = Addvv_op then [(4, 1), (1, 1)]
         else [])\<rparr>"

definition product_layer :: "(real, example_op, example_op list) tape_layer" where
  "product_layer = spec_layer identity_layer product_ops (\<lambda>i. [5, 4, 2, 1]) (\<lambda>i. [1, 2])"

definition product_fun :: "(real, example_op, example_op list) ADFun" where
  "product_fun =
     \<lparr>ind_taddr = [1, 2, 3], dep_taddr = [5], total_num_var = 6, taylor_per_var = 1,
      taylor_col_dim = 1, taylor = [0, 3, 4, 5, 12, 15],
      play = [Begin_op, Inv_op, Inv_op, Inv_op, Mulvv_op, Addvv_op, End_op],
      Partial = [0, 0, 0, 0, 0, 0], op_inv_index = [], op_mark_index = [],
      tp = [\<lparr>op = Begin_op, var_index = 0\<rparr>, \<lparr>op = Inv_op, var_index = 1\<rparr>,
            \<lparr>op = Inv_op, var_index = 2\<rparr>, \<lparr>op = Inv_op, var_index = 3\<rparr>,
            \<lparr>op = Mulvv_op, var_index = 4\<rparr>, \<lparr>op = Addvv_op, var_index = 5\<rparr>,
            \<lparr>op = End_op, var_index = 5\<rparr>]\<rparr>"

text \<open>
  The function \<open>x0 \<mapsto> (x0, x0)\<close>: the tape of \<open>y = x0\<close> with two dependent variables
  at the same address 1.
\<close>

definition aliased_fun :: "(real, example_op, example_op list) ADFun" where
  "aliased_fun = identity_fun\<lparr>dep_taddr := [1, 1]\<rparr>"

subsection \<open>Notions used in the properties\<close>

text \<open>A buffer all of whose entries are zero.\<close>

definition all_zero :: "'b::zero list \<Rightarrow> bool" where
  "all_zero P \<longleftrightarrow> (\<forall>x\<in>set P. x = 0)"

text \<open>
  The buffer rows that belong to the marked operators, by their result counts (for
  \<open>p = 1\<close>): an operator with \<open>NumRes\<close> results and last result \<open>var_index\<close> owns the
  rows \<open>var_index - i\<close> for \<open>i < NumRes\<close>.
\<close>

definition cleared_rows :: "('b, 'op, 'tape) tape_layer \<Rightarrow> ('b, 'op, 'tape) ADFun \<Rightarrow> nat list" where
  "cleared_rows X F =
     concat (map (\<lambda>it. map (\<lambda>i. sz_sub (var_index (tp F ! it)) i)
                           [0..<NumRes X (op (tp F ! it))])
                 (op_mark_index F))"

text \<open>
  The marking is complete for a call that found the object \<open>F0\<close> and whose seeding
  and propagation left the object \<open>F2\<close>: every buffer row they have written, that is
  every row whose content in \<open>F2\<close> is not its content in \<open>F0\<close>, belongs to a marked
  operator.
\<close>

definition marking_complete ::
  "('b, 'op, 'tape) tape_layer \<Rightarrow> ('b, 'op, 'tape) ADFun \<Rightarrow> ('b, 'op, 'tape) ADFun \<Rightarrow> bool" where
  "marking_complete X F0 F2 \<longleftrightarrow>
     (\<forall>k<length (Partial F2).
        (k < length (Partial F0) \<and> Partial F2 ! k = Partial F0 ! k)
        \<or> k \<in> set (cleared_rows X F2))"

text \<open>
  A sequence of calls to \<^verbatim>\<open>myReverse\<close> on the same object, each with its own
  arguments \<open>(p, w, dep_var_index, value)\<close>; and the sequences all of whose calls are
  of first order and have a complete marking.
\<close>

fun myReverse_calls ::
  "('b::{zero,one}, 'op, 'tape) tape_layer \<Rightarrow> (nat \<times> 'b list \<times> nat \<times> 'b list) list
     \<Rightarrow> ('b, 'op, 'tape) ADFun \<Rightarrow> error option \<times> ('b, 'op, 'tape) ADFun" where
  "myReverse_calls X [] F = (None, F)"
| "myReverse_calls X ((p, w, dep_var_index, v) # cs) F =
     (case myReverse X p w dep_var_index v F of
        (Some e, v', F') \<Rightarrow> (Some e, F')
      | (None, v', F') \<Rightarrow> myReverse_calls X cs F')"

fun calls_complete ::
  "('b::{zero,one}, 'op, 'tape) tape_layer \<Rightarrow> (nat \<times> 'b list \<times> nat \<times> 'b list) list
     \<Rightarrow> ('b, 'op, 'tape) ADFun \<Rightarrow> bool" where
  "calls_complete X [] F = True"
| "calls_complete X ((p, w, dep_var_index, v) # cs) F =
     (p = 1 \<and> marking_complete X F (snd (myReverse_propagated X p dep_var_index F))
      \<and> calls_complete X cs (snd (snd (myReverse X p w dep_var_index v F))))"

text \<open>The weight vector of length \<open>m\<close> that is zero except for \<open>w[i] = 1\<close>.\<close>

definition unit_weight :: "nat \<Rightarrow> nat \<Rightarrow> 'b::{zero,one} list" where
  "unit_weight m i = (replicate m 0)[i := 1]"

text \<open>
  The two propagations agree for the dependent variable \<open>dep_var_index\<close> on the object
  \<open>F1\<close>, whose member buffer holds the seed: run for first order on the buffer of
  \<open>F1\<close>, \<^verbatim>\<open>myReverseSweep\<close> and \<^verbatim>\<open>ReverseSweep\<close> leave the same value in the row of every
  independent variable that the selective sweep lists in \<^verbatim>\<open>op_inv_index_\<close>, and the
  selective sweep does not change \<^verbatim>\<open>ind_taddr_\<close>.
\<close>

definition sweeps_agree ::
  "('b, 'op, 'tape) tape_layer \<Rightarrow> nat \<Rightarrow> ('b, 'op, 'tape) ADFun \<Rightarrow> bool" where
  "sweeps_agree X dep_var_index F1 \<longleftrightarrow>
     (let n = length (ind_taddr F1);
          F2 = myReverseSweep X 0 n (total_num_var F1) (taylor_col_dim F1) 1 dep_var_index F1;
          B = ReverseSweep X 0 n (total_num_var F1) (play F1) (taylor_col_dim F1) (taylor F1) 1
                (Partial F1)
      in ind_taddr F2 = ind_taddr F1
         \<and> (\<forall>it\<in>set (op_inv_index F2).
               Partial F2 ! (ind_taddr F1 ! sz_sub it 1) = B ! (ind_taddr F1 ! sz_sub it 1)))"

section \<open>Properties\<close>

subsection \<open>Arithmetic that does not wrap\<close>

lemma sz_add_eq: "a + b < 2 ^ 64 \<Longrightarrow> sz_add a b = a + b"
  by (simp add: sz_add_def)

lemma sz_mul_eq: "a * b < 2 ^ 64 \<Longrightarrow> sz_mul a b = a * b"
  by (simp add: sz_mul_def)

lemma sz_sub_eq: "b \<le> a \<Longrightarrow> a < 2 ^ 64 \<Longrightarrow> sz_sub a b = a - b"
proof -
  assume h: "b \<le> a" "a < 2 ^ 64"
  define M :: nat where "M = 2 ^ 64"
  have bm: "b mod M = b" using h by (simp add: M_def)
  have "a + (M - b) = (a - b) + M" using h by (simp add: M_def)
  then have "(a + (M - b)) mod M = (a - b) mod M" by simp
  also have "\<dots> = a - b" using h by (simp add: M_def)
  finally show ?thesis unfolding sz_sub_def M_def [symmetric] by (simp add: bm)
qed

subsection \<open>Rules for loops\<close>

lemma for_each_append:
  "for_each (xs @ ys) body s =
     (case for_each xs body s of (Some e, s') \<Rightarrow> (Some e, s') | (None, s') \<Rightarrow> for_each ys body s')"
  by (induction xs arbitrary: s) (auto split: prod.splits option.splits)

text \<open>What every step keeps, the loop keeps, however it ends.\<close>

lemma for_each_preserves:
  assumes "for_each xs body s = (r, s')" and "Q s"
    and "\<And>x t r' t'. x \<in> set xs \<Longrightarrow> Q t \<Longrightarrow> body x t = (r', t') \<Longrightarrow> Q t'"
  shows "Q s'"
  using assms
proof (induction xs arbitrary: s)
  case Nil
  then show ?case by simp
next
  case (Cons x xs)
  obtain r1 s1 where b: "body x s = (r1, s1)" by (cases "body x s")
  have q1: "Q s1" using Cons.prems(2,3) b by auto
  show ?case
  proof (cases r1)
    case None
    then have "for_each xs body s1 = (r, s')" using Cons.prems(1) b by simp
    then show ?thesis by (rule Cons.IH [OF _ q1]) (use Cons.prems(3) in auto)
  next
    case (Some e)
    then have "s' = s1" using Cons.prems(1) b by simp
    then show ?thesis using q1 by simp
  qed
qed

text \<open>A counting loop that ended without error has established its invariant.\<close>

lemma for_each_upt_normal:
  assumes "for_each [0..<n] body s = (None, s')" and "I 0 s"
    and "\<And>i t t'. i < n \<Longrightarrow> I i t \<Longrightarrow> body i t = (None, t') \<Longrightarrow> I (Suc i) t'"
  shows "I n s'"
  using assms
proof (induction n arbitrary: s')
  case 0
  then show ?case by simp
next
  case (Suc n)
  obtain r1 s1 where f: "for_each [0..<n] body s = (r1, s1)" by (cases "for_each [0..<n] body s")
  from Suc.prems(1) f have r1: "r1 = None" and b: "body n s1 = (None, s')"
    by (auto simp: for_each_append split: option.splits prod.splits)
  have "I n s1" using Suc.IH[of s1] f r1 Suc.prems(2,3) by auto
  then show ?case using Suc.prems(3)[of n s1 s'] b by simp
qed

lemmas model_defs = Reverse_def Reverse_seeded_def Reverse_zero_def
  Reverse_seed_def Reverse_extract_def myReverse_def myReverse_seed_def
  myReverse_propagated_def myReverse_extract_def myReverse_clear_def store_def
  sz_add_def sz_mul_def sz_sub_def

lemmas spec_defs = spec_layer_def spec_ReverseSweep_def spec_myReverseSweep_def
  spec_propagate_def chain_rule_def

subsection \<open>Calls that break a stated precondition\<close>

text \<open>
  Claim C6, on the source. \<^verbatim>\<open>myReverse\<close> states \<^verbatim>\<open>p == 1\<close> in its first assertion,
  with the text "myReverse only works for first order calculations.", and the
  assertion is discarded: the file compiles only where \<^verbatim>\<open>CPPAD_ASSERT_KNOWN\<close> expands
  to nothing, as the second assertion of \<^verbatim>\<open>myReverse\<close> reads \<^verbatim>\<open>m\<close>, whose declaration
  is in a comment. A call with \<open>p = 2\<close> is not stopped. On the tape of \<open>y = x0\<close>
  with a member buffer of four zeros it writes the seed into entry 3, runs
  \<^verbatim>\<open>myReverseSweep\<close> (which records the operator of \<open>x0\<close> in \<^verbatim>\<open>op_inv_index_\<close> and
  \<^verbatim>\<open>op_mark_index_\<close>), writes \<open>[1, 0]\<close> into the caller's vector, and returns without
  error; the cleanup clears the entries 1 and 2, so the member buffer is left as
  \<open>[0, 0, 0, 1]\<close>. With the member buffer of two entries, one for each variable,
  the seed of the same call goes to entry 3, outside the buffer.
\<close>

theorem myReverse_order_unchecked:
  "(2::nat) \<noteq> 1
   \<and> myReverse identity_layer 2 [1] 0 [9, 9] identity_fun_order2 =
       (None, [1, 0],
        identity_fun_order2\<lparr>Partial := [0, 0, 0, 1], op_inv_index := [1], op_mark_index := [1]\<rparr>)
   \<and> myReverse identity_layer 2 [1] 0 [9, 9] identity_fun = (Some OutOfRange, [9, 9], identity_fun)"
  by (simp add: model_defs identity_layer_def identity_fun_def identity_fun_order2_def upt_rec)

text \<open>In general, no call to \<^verbatim>\<open>myReverse\<close> ends with the error of an assertion.\<close>

lemma for_each_error_free:
  assumes "\<And>x t. fst (body x t) \<noteq> Some e"
  shows "fst (for_each xs body s) \<noteq> Some e"
proof (induction xs arbitrary: s)
  case Nil
  then show ?case by simp
next
  case (Cons x xs)
  obtain r1 s1 where b: "body x s = (r1, s1)" by (cases "body x s")
  have "r1 \<noteq> Some e" using assms [of x s] b by simp
  then show ?case using b Cons.IH [of s1] by (cases r1) auto
qed

lemma store_error_free: "fst (store P ix x) \<noteq> Some (Known msg)"
  by (simp add: store_def)

lemma myReverse_never_Known: "fst (myReverse X p w dep_var_index v F) \<noteq> Some (Known msg)"
proof -
  have seed: "fst (myReverse_propagated X p dep_var_index F) \<noteq> Some (Known msg)"
    by (auto simp: myReverse_propagated_def myReverse_seed_def store_def Let_def
        split: prod.splits option.splits if_splits)
  have ext: "fst (myReverse_extract G p u) \<noteq> Some (Known msg)" for G u
    unfolding myReverse_extract_def Let_def
    by (rule for_each_error_free, rule for_each_error_free) (simp add: store_def)
  have clr: "fst (myReverse_clear X G p Q) \<noteq> Some (Known msg)" for G Q
    unfolding myReverse_clear_def Let_def
  proof (rule for_each_error_free)
    fix it t
    have "fst (for_each [0..<NumRes X (op (tp G ! it))]
              (\<lambda>i. for_each [0..<p]
                      (\<lambda>j P. store P (sz_add (sz_sub (var_index (tp G ! it)) (sz_mul i p)) j) 0)) t)
           \<noteq> Some (Known msg)"
      by (rule for_each_error_free, rule for_each_error_free) (rule store_error_free)
    then show "fst (if \<not> it < length (tp G) then (Some OutOfRange, t)
          else for_each [0..<NumRes X (op (tp G ! it))]
              (\<lambda>i. for_each [0..<p]
                      (\<lambda>j P. store P (sz_add (sz_sub (var_index (tp G ! it)) (sz_mul i p)) j) 0)) t)
           \<noteq> Some (Known msg)" by simp
  qed
  show ?thesis
  proof (cases "myReverse_propagated X p dep_var_index F")
    case (Pair r1 F2)
    show ?thesis
    proof (cases r1)
      case (Some e)
      then show ?thesis using seed Pair by (simp add: myReverse_def)
    next
      case None
      obtain r2 v2 where ex: "myReverse_extract F2 p v = (r2, v2)"
        by (cases "myReverse_extract F2 p v")
      show ?thesis
      proof (cases r2)
        case (Some e)
        then show ?thesis using ext [of F2 v] Pair None ex by (simp add: myReverse_def)
      next
        case r2: None
        obtain r3 P3 where cl: "myReverse_clear X F2 p (Partial F2) = (r3, P3)"
          by (cases "myReverse_clear X F2 p (Partial F2)")
        then show ?thesis using clr [of F2 "Partial F2"] Pair None ex r2
          by (simp add: myReverse_def)
      qed
    qed
  qed
qed

text \<open>
  Claim C7, on the source. \<^verbatim>\<open>Reverse\<close> states its three preconditions in assertions
  that are discarded, for the reason given at C6: the file compiles only where
  \<^verbatim>\<open>CPPAD_ASSERT_KNOWN\<close> expands to nothing. A call that breaks one of them is not
  stopped. On the tape of \<open>y = x0\<close>, where \<open>m = 1\<close> and two Taylor coefficients are
  stored for each variable:
  \<^item> with \<open>p = 2\<close> and a \<open>w\<close> of length 3, neither \<open>m\<close> nor \<open>m * p\<close>, the call sets its
    buffer to zero, seeds it to \<open>[0, 0, 1, 2]\<close> and returns \<open>[1, 2]\<close>;
  \<^item> with \<open>p = 3\<close>, more than the stored coefficients, and \<open>w = [1]\<close>, it seeds its
    buffer to \<open>[0, 0, 0, 0, 0, 1]\<close> and returns \<open>[1, 0, 0]\<close>;
  \<^item> with \<open>p = 0\<close> and the empty \<open>w\<close>, it calls \<^verbatim>\<open>ReverseSweep\<close> on an empty buffer
    and returns the empty vector.
\<close>

theorem Reverse_preconditions_unchecked:
  "\<not> Reverse_asserted 2 [1, 2, 3 :: real] identity_fun
   \<and> Reverse identity_layer 2 [1, 2, 3] identity_fun = (Inr [1, 2], [0, 0, 1, 2], identity_fun)
   \<and> \<not> Reverse_asserted 3 [1 :: real] identity_fun
   \<and> Reverse identity_layer 3 [1] identity_fun
       = (Inr [1, 0, 0], [0, 0, 0, 0, 0, 1], identity_fun)
   \<and> \<not> Reverse_asserted 0 ([] :: real list) identity_fun
   \<and> Reverse identity_layer 0 [] identity_fun = (Inr [], [], identity_fun)"
  by (simp add: model_defs Reverse_asserted_def identity_layer_def identity_fun_def upt_rec)

text \<open>In general, no call to \<^verbatim>\<open>Reverse\<close> ends with the error of an assertion.\<close>

lemma Reverse_never_Known: "fst (Reverse X p w F) \<noteq> Inl (Known msg)"
proof -
  have zero: "fst (Reverse_zero F p P) \<noteq> Some (Known msg)" for P
    unfolding Reverse_zero_def
    by (rule for_each_error_free, rule for_each_error_free) (rule store_error_free)
  have seed: "fst (Reverse_seed F p w P) \<noteq> Some (Known msg)" for P
    unfolding Reverse_seed_def
    by (rule for_each_error_free)
      (auto simp: Let_def store_def split: if_splits intro!: for_each_error_free)
  have ext: "fst (Reverse_extract X F p w P v) \<noteq> Some (Known msg)" for P v
    unfolding Reverse_extract_def
    by (rule for_each_error_free)
      (auto simp: Let_def store_def split: if_splits intro!: for_each_error_free)
  have seeded: "fst (Reverse_seeded X p w F) \<noteq> Some (Known msg)"
    using zero seed
    by (auto simp: Reverse_seeded_def Let_def split: prod.splits option.splits)
      (metis fst_conv)+
  show ?thesis
    using seeded ext
    by (auto simp: Reverse_def Let_def split: prod.splits option.splits)
      (metis fst_conv)+
qed

subsection \<open>The buffer of the full sweep\<close>

text \<open>
  Claim C9, as the source has it. The buffer that \<^verbatim>\<open>Reverse\<close> sets to zero, seeds
  and sweeps is a local variable of the call. The object, and with it the member
  buffer that \<^verbatim>\<open>myReverse\<close> works on, is after every call to \<^verbatim>\<open>Reverse\<close> what it
  was before: a later selective sweep sees none of the full sweep's writes.
\<close>

theorem Reverse_keeps_object:
  "snd (snd (Reverse X p w F)) = F
   \<and> myReverse X q w' dep_var_index v (snd (snd (Reverse X p w F)))
       = myReverse X q w' dep_var_index v F"
proof -
  have "snd (snd (Reverse X p w F)) = F"
    by (simp add: Reverse_def Let_def split: prod.splits option.splits)
  then show ?thesis by simp
qed

text \<open>
  On the tape of \<open>y = x0\<close> with \<open>p = 2\<close> and \<open>w = [1]\<close> the full sweep leaves
  \<open>[0, 0, 0, 1]\<close> in its own buffer, and the member buffer is \<open>[0, 0]\<close> before and
  after the call.
\<close>

theorem Reverse_shared_buffer_counterexample:
  "Reverse identity_layer 2 [1] identity_fun = (Inr [1, 0], [0, 0, 0, 1], identity_fun)
   \<and> Partial identity_fun = [0, 0]
   \<and> Partial (snd (snd (Reverse identity_layer 2 [1] identity_fun))) = [0, 0]"
  by (simp add: model_defs identity_layer_def identity_fun_def upt_rec)

subsection \<open>Rows of the buffer\<close>

lemma row_index: "k < p \<Longrightarrow> j < n \<Longrightarrow> j * p + k < n * (p::nat)"
proof -
  assume h: "k < p" "j < n"
  have "Suc j * p \<le> n * p" using h(2) by (intro mult_le_mono1) simp
  then show ?thesis using h(1) by simp
qed

lemma sz_row: "k < p \<Longrightarrow> j < n \<Longrightarrow> n * p < 2 ^ 64 \<Longrightarrow> sz_add (sz_mul j p) k = j * p + k"
proof -
  assume h: "k < p" "j < n" "n * p < 2 ^ 64"
  have lt: "j * p + k < n * p" using h by (simp add: row_index)
  then have "j * p < 2 ^ 64" using h(3) by simp
  then have "sz_mul j p = j * p" by (rule sz_mul_eq)
  then show ?thesis using lt h(3) by (simp add: sz_add_eq)
qed

lemma sz_row_rev:
  assumes "k < p" "a < N" "N * p < 2 ^ 64"
  shows "sz_sub (sz_sub (sz_add (sz_mul a p) p) 1) k = a * p + p - 1 - k"
proof -
  have le: "Suc a * p \<le> N * p" using assms(2) by (intro mult_le_mono1) simp
  then have b: "a * p + p < 2 ^ 64" using assms(3) by simp
  then have "sz_mul a p = a * p" by (intro sz_mul_eq) simp
  then have 1: "sz_add (sz_mul a p) p = a * p + p" using b by (simp add: sz_add_eq)
  have 2: "sz_sub (a * p + p) 1 = a * p + p - 1" using b assms(1) by (intro sz_sub_eq) simp_all
  have 3: "sz_sub (a * p + p - 1) k = a * p + p - 1 - k"
    using b assms(1) by (intro sz_sub_eq) simp_all
  show ?thesis by (simp only: 1 2 3)
qed

lemma sz_row_last:
  assumes "0 < p" "a < N" "N * p < 2 ^ 64"
  shows "sz_sub (sz_add (sz_mul a p) p) 1 = a * p + p - 1"
proof -
  have "sz_sub (sz_sub (sz_add (sz_mul a p) p) 1) 0 = a * p + p - 1 - 0"
    using assms by (rule sz_row_rev)
  moreover have "sz_sub x 0 = x mod 2 ^ 64" for x by (simp add: sz_sub_def)
  moreover have "sz_sub x y mod 2 ^ 64 = sz_sub x y" for x y by (simp add: sz_sub_def)
  ultimately show ?thesis by simp
qed

lemma store_None: "store v ix x = (None, v') \<longleftrightarrow> ix < length v \<and> v' = v[ix := x]"
  by (auto simp: store_def)

lemma write_row_normal:
  assumes run: "for_each [0..<p]
                  (\<lambda>k v. if c k then store v (sz_add (sz_mul j p) k) (f k)
                          else (Some OutOfRange, v)) v = (None, v')"
    and j: "j < n" and n: "n * p < 2 ^ 64"
  shows "length v' = length v \<and> (\<forall>k<p. c k \<and> j * p + k < length v \<and> v' ! (j * p + k) = f k)
         \<and> (\<forall>q. q < j * p \<or> j * p + p \<le> q \<longrightarrow> v' ! q = v ! q)"
proof -
  let ?I = "\<lambda>k' u. length u = length v
              \<and> (\<forall>k<k'. c k \<and> j * p + k < length v \<and> u ! (j * p + k) = f k)
              \<and> (\<forall>q. q < j * p \<or> j * p + k' \<le> q \<longrightarrow> u ! q = v ! q)"
  have "?I p v'"
  proof (rule for_each_upt_normal [OF run, where I = ?I])
    show "?I 0 v" by simp
  next
    fix k t t'
    assume k: "k < p" and I: "?I k t"
      and b: "(if c k then store t (sz_add (sz_mul j p) k) (f k) else (Some OutOfRange, t)) = (None, t')"
    have ix: "sz_add (sz_mul j p) k = j * p + k" using k j n by (rule sz_row)
    from b have c: "c k" by (auto split: if_splits)
    with b ix have r: "j * p + k < length t" and t': "t' = t[j * p + k := f k]"
      by (auto simp: store_None)
    show "?I (Suc k) t'"
      using I c r unfolding t' by (auto simp: nth_list_update less_Suc_eq)
  qed
  then show ?thesis by simp
qed

lemma below_rows: "q < Suc i * p \<Longrightarrow> \<not> q < i * p \<Longrightarrow> \<exists>k<p. q = i * p + (k::nat)"
  by (rule exI [of _ "q - i * p"]) auto

lemma Reverse_zero_normal:
  assumes run: "Reverse_zero F p P = (None, P')"
    and len: "length P = total_num_var F * p" and n: "total_num_var F * p < 2 ^ 64"
  shows "P' = replicate (total_num_var F * p) 0"
proof -
  let ?N = "total_num_var F"
  let ?I = "\<lambda>i' u. length u = length P \<and> (\<forall>q<i' * p. u ! q = 0)"
  have "?I ?N P'"
  proof (rule for_each_upt_normal [OF run [unfolded Reverse_zero_def], where I = ?I])
    show "?I 0 P" by simp
  next
    fix i t t'
    assume i: "i < ?N" and I: "?I i t"
      and b: "for_each [0..<p] (\<lambda>j P. store P (sz_add (sz_mul i p) j) 0) t = (None, t')"
    have "for_each [0..<p]
            (\<lambda>k v. if True then store v (sz_add (sz_mul i p) k) 0 else (Some OutOfRange, v)) t
          = (None, t')"
      using b by simp
    from write_row_normal [OF this i n]
    have w: "length t' = length t" "\<forall>k<p. t' ! (i * p + k) = 0"
      "\<forall>q. q < i * p \<longrightarrow> t' ! q = t ! q" by auto
    show "?I (Suc i) t'"
    proof (intro conjI allI impI)
      show "length t' = length P" using w(1) I by simp
    next
      fix q assume q: "q < Suc i * p"
      show "t' ! q = 0"
      proof (cases "q < i * p")
        case True
        then show ?thesis using w(3) I by simp
      next
        case False
        with q obtain k where "k < p" "q = i * p + k" using below_rows by blast
        then show ?thesis using w(2) by simp
      qed
    qed
  qed
  then have "length P' = ?N * p" "\<forall>q<?N * p. P' ! q = 0" using len by auto
  then show ?thesis by (intro nth_equalityI) auto
qed

lemma Reverse_extract_normal:
  assumes run: "Reverse_extract X F p w P v = (None, v')"
    and n: "length (ind_taddr F) * p < 2 ^ 64" and N: "total_num_var F * p < 2 ^ 64"
  shows "length v' = length v
         \<and> (\<forall>j<length (ind_taddr F). \<forall>k<p.
               ind_taddr F ! j < total_num_var F \<and>
               v' ! (j * p + k) =
                 (if length w = length (dep_taddr F) then P ! (ind_taddr F ! j * p + p - 1 - k)
                  else P ! (ind_taddr F ! j * p + k)))"
proof -
  let ?n = "length (ind_taddr F)"
  let ?tgt = "\<lambda>j k. if length w = length (dep_taddr F) then P ! (ind_taddr F ! j * p + p - 1 - k)
                  else P ! (ind_taddr F ! j * p + k)"
  let ?I = "\<lambda>j' u. length u = length v
              \<and> (\<forall>j<j'. \<forall>k<p. ind_taddr F ! j < total_num_var F \<and> u ! (j * p + k) = ?tgt j k)"
  have "?I ?n v'"
  proof (rule for_each_upt_normal [OF run [unfolded Reverse_extract_def], where I = ?I])
    show "?I 0 v" by simp
  next
    fix j t t'
    assume j: "j < ?n" and I: "?I j t"
    let ?a = "ind_taddr F ! j"
    define g where "g = (if length w = length (dep_taddr F)
                   then (\<lambda>k. sz_sub (sz_sub (sz_add (sz_mul ?a p) p) 1) k)
                   else (\<lambda>k. sz_add (sz_mul ?a p) k))"
    assume b: "(if \<not> ?a < total_num_var F then (Some Unknown, t)
          else if GetOp X (play F) ?a \<noteq> InvOp X then (Some Unknown, t)
          else if length w = length (dep_taddr F) then
            for_each [0..<p]
              (\<lambda>k v.
                 let ix = sz_sub (sz_sub (sz_add (sz_mul ?a p) p) 1) k in
                 if ix < length P then store v (sz_add (sz_mul j p) k) (P ! ix)
                 else (Some OutOfRange, v)) t
          else
            for_each [0..<p]
              (\<lambda>k v.
                 let ix = sz_add (sz_mul ?a p) k in
                 if ix < length P then store v (sz_add (sz_mul j p) k) (P ! ix)
                 else (Some OutOfRange, v)) t) = (None, t')"
    then have a: "?a < total_num_var F" and op: "GetOp X (play F) ?a = InvOp X"
      by (auto split: if_splits)
    have "for_each [0..<p]
            (\<lambda>k v. if g k < length P then store v (sz_add (sz_mul j p) k) (P ! g k)
                    else (Some OutOfRange, v)) t = (None, t')"
    proof (cases "length w = length (dep_taddr F)")
      case True
      then show ?thesis using b a op by (simp add: Let_def g_def cong: if_cong)
    next
      case False
      then show ?thesis using b a op by (simp add: Let_def g_def cong: if_cong)
    qed
    from write_row_normal [OF this j n]
    have w: "length t' = length t" "\<forall>k<p. t' ! (j * p + k) = P ! g k"
      "\<forall>q. q < j * p \<longrightarrow> t' ! q = t ! q" by auto
    have g: "P ! g k = ?tgt j k" if "k < p" for k
      using sz_row_rev [OF that a N] sz_row [OF that a N] by (simp add: g_def)
    show "?I (Suc j) t'"
    proof (intro conjI allI impI)
      show "length t' = length v" using w(1) I by simp
    next
      fix j0 k assume j0: "j0 < Suc j" and k: "k < p"
      show "ind_taddr F ! j0 < total_num_var F" using j0 I a k by (cases "j0 = j") auto
      show "t' ! (j0 * p + k) = ?tgt j0 k"
      proof (cases "j0 = j")
        case True
        then show ?thesis using w(2) g k by simp
      next
        case False
        then have "j0 < j" using j0 by simp
        then have "j0 * p + k < j * p" using k by (rule row_index [rotated])
        then show ?thesis using w(3) I \<open>j0 < j\<close> k by simp
      qed
    qed
  qed
  then show ?thesis by simp
qed

subsection \<open>Extraction in the full sweep\<close>

text \<open>
  Claim C5. When \<^verbatim>\<open>Reverse\<close> returns the vector \<open>dw\<close>, and \<open>B\<close> is its buffer after
  \<^verbatim>\<open>ReverseSweep\<close>, then for every independent variable \<open>j\<close> and order \<open>k\<close>:
  \<open>dw[j * p + k]\<close> is entry \<open>p - 1 - k\<close> of row \<open>ind_taddr[j]\<close> of \<open>B\<close> when \<open>w\<close> has
  length \<open>m\<close>, and entry \<open>k\<close> of that row otherwise. (The sizes \<open>total_num_var * p\<close> and
  \<open>n * p\<close> are taken to fit in a \<^verbatim>\<open>size_t\<close>.)
\<close>

theorem Reverse_extraction:
  assumes run: "Reverse X p w F = (Inr dw, B, F')"
    and N: "total_num_var F * p < 2 ^ 64" and n: "length (ind_taddr F) * p < 2 ^ 64"
    and j: "j < length (ind_taddr F)" and k: "k < p"
  shows "B = ReverseSweep X (sz_sub p 1) (length (ind_taddr F)) (total_num_var F) (play F)
               (taylor_col_dim F) (taylor F) p (snd (Reverse_seeded X p w F))
         \<and> dw ! (j * p + k) =
           (if length w = length (dep_taddr F) then B ! (ind_taddr F ! j * p + (p - 1 - k))
            else B ! (ind_taddr F ! j * p + k))"
proof -
  from run obtain P2 where P2: "Reverse_seeded X p w F = (None, P2)"
    by (auto simp: Reverse_def Let_def split: prod.splits option.splits)
  with run have B: "B = ReverseSweep X (sz_sub p 1) (length (ind_taddr F)) (total_num_var F)
                      (play F) (taylor_col_dim F) (taylor F) p P2"
    by (auto simp: Reverse_def Let_def split: prod.splits option.splits)
  from run P2 have "Reverse_extract X F p w B (map (fresh X) [0..<sz_mul (length (ind_taddr F)) p])
                   = (None, dw)"
    by (auto simp: Reverse_def Let_def split: prod.splits option.splits)
  from Reverse_extract_normal [OF this n N] j k
  have "dw ! (j * p + k) =
           (if length w = length (dep_taddr F) then B ! (ind_taddr F ! j * p + p - 1 - k)
            else B ! (ind_taddr F ! j * p + k))" by simp
  moreover have "ind_taddr F ! j * p + p - 1 - k = ind_taddr F ! j * p + (p - 1 - k)"
    using k by simp
  ultimately show ?thesis using B P2 by simp
qed

theorem Reverse_extraction_witness:
  "Reverse identity_layer 2 [1] identity_fun = (Inr [1, 0], [0, 0, 0, 1], identity_fun)
   \<and> total_num_var identity_fun * 2 < 2 ^ 64 \<and> length (ind_taddr identity_fun) * 2 < 2 ^ 64
   \<and> 0 < length (ind_taddr identity_fun) \<and> (1::nat) < 2
   \<and> [1, 0 :: real] ! (0 * 2 + 1) = [0, 0, 0, 1] ! (ind_taddr identity_fun ! 0 * 2 + (2 - 1 - 1))"
proof -
  have run: "Reverse identity_layer 2 [1] identity_fun = (Inr [1, 0], [0, 0, 0, 1], identity_fun)"
    by (simp add: model_defs identity_layer_def identity_fun_def upt_rec)
  have N: "total_num_var identity_fun * 2 < 2 ^ 64"
    and n: "length (ind_taddr identity_fun) * 2 < 2 ^ 64"
    and j: "0 < length (ind_taddr identity_fun)"
    by (simp_all add: identity_fun_def)
  have k: "(1::nat) < 2" by simp
  have c: "[1, 0 :: real] ! (0 * 2 + 1)
             = [0, 0, 0, 1] ! (ind_taddr identity_fun ! 0 * 2 + (2 - 1 - 1))"
    using Reverse_extraction [OF run N n j k, THEN conjunct2] by (simp add: identity_fun_def)
  show ?thesis by (intro conjI run N n j k c)
qed


subsection \<open>What the selective sweep writes into the caller's vector\<close>

lemma sz_one_row: "sz_add (sz_mul (sz_sub it (Suc 0)) (Suc 0)) 0 = sz_sub it (Suc 0)"
  by (simp add: sz_add_def sz_mul_def sz_sub_def)

lemma myReverse_extract_frame:
  assumes "myReverse_extract F 1 v = (r, v')"
  shows "length v' = length v
         \<and> (\<forall>q. (\<forall>it\<in>set (op_inv_index F). sz_sub it 1 \<noteq> q) \<longrightarrow> v' ! q = v ! q)"
proof (rule for_each_preserves [OF assms [unfolded myReverse_extract_def]])
  show "length v = length v
         \<and> (\<forall>q. (\<forall>it\<in>set (op_inv_index F). sz_sub it 1 \<noteq> q) \<longrightarrow> v ! q = v ! q)" by simp
next
  fix it t r' t'
  assume it: "it \<in> set (op_inv_index F)"
    and Q: "length t = length v
         \<and> (\<forall>q. (\<forall>it\<in>set (op_inv_index F). sz_sub it 1 \<noteq> q) \<longrightarrow> t ! q = v ! q)"
    and b: "(let j = sz_sub it 1 in
          for_each [0..<1]
            (\<lambda>k v.
               if \<not> j < length (ind_taddr F) then (Some OutOfRange, v)
               else
                 let ix = sz_sub (sz_sub (sz_add (sz_mul (ind_taddr F ! j) 1) 1) 1) k in
                 if ix < length (Partial F) then store v (sz_add (sz_mul j 1) k) (Partial F ! ix)
                 else (Some OutOfRange, v)) t) = (r', t')"
  from b have "t' = t \<or> (\<exists>x. t' = t[sz_sub it 1 := x])"
    by (auto simp: Let_def store_def sz_one_row split: if_splits prod.splits option.splits)
  then show "length t' = length v
         \<and> (\<forall>q. (\<forall>it\<in>set (op_inv_index F). sz_sub it 1 \<noteq> q) \<longrightarrow> t' ! q = v ! q)"
    using Q it by auto
qed

lemma myReverse_extract_frame_rows:
  assumes "myReverse_extract F p v = (r, v')"
  shows "length v' = length v
         \<and> (\<forall>q. (\<forall>it\<in>set (op_inv_index F). \<forall>k<p. sz_add (sz_mul (sz_sub it 1) p) k \<noteq> q)
                \<longrightarrow> v' ! q = v ! q)"
proof (rule for_each_preserves [OF assms [unfolded myReverse_extract_def]])
  show "length v = length v
         \<and> (\<forall>q. (\<forall>it\<in>set (op_inv_index F). \<forall>k<p. sz_add (sz_mul (sz_sub it 1) p) k \<noteq> q)
                \<longrightarrow> v ! q = v ! q)" by simp
next
  fix it t r' t'
  assume it: "it \<in> set (op_inv_index F)"
    and Q: "length t = length v
         \<and> (\<forall>q. (\<forall>it\<in>set (op_inv_index F). \<forall>k<p. sz_add (sz_mul (sz_sub it 1) p) k \<noteq> q)
                \<longrightarrow> t ! q = v ! q)"
    and b: "(let j = sz_sub it 1 in
          for_each [0..<p]
            (\<lambda>k v.
               if \<not> j < length (ind_taddr F) then (Some OutOfRange, v)
               else
                 let ix = sz_sub (sz_sub (sz_add (sz_mul (ind_taddr F ! j) p) p) 1) k in
                 if ix < length (Partial F) then store v (sz_add (sz_mul j p) k) (Partial F ! ix)
                 else (Some OutOfRange, v)) t) = (r', t')"
  have inner: "length t' = length t
         \<and> (\<forall>q. (\<forall>k<p. sz_add (sz_mul (sz_sub it 1) p) k \<noteq> q) \<longrightarrow> t' ! q = t ! q)"
  proof (rule for_each_preserves [OF b [unfolded Let_def]])
    show "length t = length t
         \<and> (\<forall>q. (\<forall>k<p. sz_add (sz_mul (sz_sub it 1) p) k \<noteq> q) \<longrightarrow> t ! q = t ! q)" by simp
  next
    fix k u r'' u'
    assume k: "k \<in> set [0..<p]"
      and Qu: "length u = length t
         \<and> (\<forall>q. (\<forall>k<p. sz_add (sz_mul (sz_sub it 1) p) k \<noteq> q) \<longrightarrow> u ! q = t ! q)"
      and st: "(if \<not> sz_sub it 1 < length (ind_taddr F) then (Some OutOfRange, u)
               else if sz_sub (sz_sub (sz_add (sz_mul (ind_taddr F ! sz_sub it 1) p) p) 1) k
                         < length (Partial F)
                    then store u (sz_add (sz_mul (sz_sub it 1) p) k)
                           (Partial F ! sz_sub (sz_sub (sz_add (sz_mul (ind_taddr F ! sz_sub it 1) p) p) 1) k)
                    else (Some OutOfRange, u)) = (r'', u')"
    from st have "u' = u \<or> (\<exists>x. u' = u[sz_add (sz_mul (sz_sub it 1) p) k := x])"
      by (auto simp: store_def split: if_splits)
    then show "length u' = length t
         \<and> (\<forall>q. (\<forall>k<p. sz_add (sz_mul (sz_sub it 1) p) k \<noteq> q) \<longrightarrow> u' ! q = t ! q)"
      using Qu k by auto
  qed
  show "length t' = length v
         \<and> (\<forall>q. (\<forall>it\<in>set (op_inv_index F). \<forall>k<p. sz_add (sz_mul (sz_sub it 1) p) k \<noteq> q)
                \<longrightarrow> t' ! q = v ! q)"
    using inner Q it by auto
qed

text \<open>
  Claim C10. However a call to \<^verbatim>\<open>myReverse\<close> ends, the caller's vector keeps its
  length, and it keeps its content at every position that no entry of
  \<^verbatim>\<open>op_inv_index_\<close> designates. An entry \<open>it\<close> of that list designates the independent
  variable \<open>it - 1\<close> (\<^verbatim>\<open>j = *it - 1\<close> in the source), whose entries in the caller's
  vector are at the positions \<open>(it - 1) * p + k\<close> for \<open>k < p\<close>; for first order this
  is the one position \<open>it - 1\<close>.
\<close>

theorem myReverse_frame:
  assumes "myReverse X p w dep_var_index v F = (r, v', F')"
  shows "length v' = length v
         \<and> (\<forall>q<length v.
               (\<forall>it\<in>set (op_inv_index F'). \<forall>k<p. sz_add (sz_mul (sz_sub it 1) p) k \<noteq> q)
               \<longrightarrow> v' ! q = v ! q)
         \<and> (p = 1 \<longrightarrow>
              (\<forall>q<length v. (\<forall>it\<in>set (op_inv_index F'). sz_sub it 1 \<noteq> q) \<longrightarrow> v' ! q = v ! q))"
proof -
  obtain r1 F2 where pr: "myReverse_propagated X p dep_var_index F = (r1, F2)"
    by (cases "myReverse_propagated X p dep_var_index F")
  have rows: "length v' = length v
         \<and> (\<forall>q. (\<forall>it\<in>set (op_inv_index F'). \<forall>k<p. sz_add (sz_mul (sz_sub it 1) p) k \<noteq> q)
                \<longrightarrow> v' ! q = v ! q)"
  proof (cases r1)
    case (Some e)
    then show ?thesis using assms pr by (simp add: myReverse_def)
  next
    case r1: None
    obtain r2 v2 where ex: "myReverse_extract F2 p v = (r2, v2)"
      by (cases "myReverse_extract F2 p v")
    have "v' = v2 \<and> op_inv_index F' = op_inv_index F2"
      using assms pr r1 ex
      by (auto simp: myReverse_def split: option.splits prod.splits)
    then show ?thesis using myReverse_extract_frame_rows [OF ex] by simp
  qed
  have "\<forall>q<length v. (\<forall>it\<in>set (op_inv_index F'). sz_sub it 1 \<noteq> q) \<longrightarrow> v' ! q = v ! q"
    if p: "p = 1"
  proof (intro allI impI)
    fix q assume "q < length v" and nd: "\<forall>it\<in>set (op_inv_index F'). sz_sub it 1 \<noteq> q"
    have "\<forall>it\<in>set (op_inv_index F'). \<forall>k<p. sz_add (sz_mul (sz_sub it 1) p) k \<noteq> q"
      using nd unfolding p by (simp add: sz_one_row)
    then show "v' ! q = v ! q" using rows by blast
  qed
  then show ?thesis using rows by blast
qed

theorem myReverse_frame_witness:
  "myReverse product_layer 1 [1] 0 [9, 9, 9] product_fun =
     (None, [5, 3, 9], product_fun\<lparr>op_inv_index := [1, 2], op_mark_index := [5, 4, 2, 1]\<rparr>)
   \<and> length [5, 3, 9 :: real] = length [9, 9, 9 :: real]
   \<and> op_inv_index (product_fun\<lparr>op_inv_index := [1, 2], op_mark_index := [5, 4, 2, 1]\<rparr>) = [1, 2]
   \<and> sz_sub 1 1 \<noteq> 2 \<and> sz_sub 2 1 \<noteq> 2 \<and> [5, 3, 9 :: real] ! 2 = [9, 9, 9] ! 2"
proof -
  have run: "myReverse product_layer 1 [1] 0 [9, 9, 9] product_fun =
     (None, [5, 3, 9], product_fun\<lparr>op_inv_index := [1, 2], op_mark_index := [5, 4, 2, 1]\<rparr>)"
    by (simp add: model_defs product_layer_def identity_layer_def product_fun_def product_ops_def spec_defs upt_rec)
  have nd: "sz_sub 1 1 \<noteq> 2 \<and> sz_sub 2 1 \<noteq> 2" by (simp add: sz_sub_def)
  show ?thesis using myReverse_frame [OF run] run nd by simp
qed

subsection \<open>Seeding in the full sweep\<close>

lemma rows_disjoint:
  "a \<noteq> b \<Longrightarrow> k < p \<Longrightarrow> b * p + k < a * p \<or> a * p + p \<le> b * p + (k::nat)"
proof (cases "b < a")
  case True
  assume "k < p"
  then have "b * p + k < a * p" using True by (rule row_index)
  then show ?thesis ..
next
  case False
  assume "a \<noteq> b"
  with False have "Suc a \<le> b" by simp
  then have "Suc a * p \<le> b * p" by (rule mult_le_mono1)
  then show ?thesis by simp
qed

lemma Reverse_seed_short_normal:
  fixes w :: "'b::monoid_add list"
  assumes run: "Reverse_seed F p w P = (None, P')"
    and short: "length w = length (dep_taddr F)"
    and p: "0 < p" and N: "total_num_var F * p < 2 ^ 64"
  shows "length P' = length P
         \<and> (\<forall>i<length (dep_taddr F). dep_taddr F ! i < total_num_var F)
         \<and> (\<forall>q<length P. P' ! q =
               P ! q + sum_list (map ((!) w)
                         (filter (\<lambda>i. dep_taddr F ! i * p + p - 1 = q) [0..<length (dep_taddr F)])))"
proof -
  let ?m = "length (dep_taddr F)"
  let ?S = "\<lambda>i' q. sum_list (map ((!) w) (filter (\<lambda>i. dep_taddr F ! i * p + p - 1 = q) [0..<i']))"
  let ?I = "\<lambda>i' u. length u = length P
              \<and> (\<forall>i<i'. dep_taddr F ! i < total_num_var F)
              \<and> (\<forall>q<length P. u ! q = P ! q + ?S i' q)"
  have "?I ?m P'"
  proof (rule for_each_upt_normal [OF run [unfolded Reverse_seed_def], where I = ?I])
    show "?I 0 P" by simp
  next
    fix i t t'
    let ?a = "dep_taddr F ! i"
    assume i: "i < ?m" and I: "?I i t"
      and b: "(if \<not> ?a < total_num_var F then (Some Unknown, t)
          else if length w = ?m then
            (let ix = sz_sub (sz_add (sz_mul ?a p) p) 1 in
             if ix < length t \<and> i < length w then store t ix (t ! ix + w ! i)
             else (Some OutOfRange, t))
          else
            for_each [0..<p]
              (\<lambda>k P.
                 let iw = sz_add (sz_mul i p) k in
                 if iw < length w then store P (sz_add (sz_mul ?a p) k) (w ! iw)
                 else (Some OutOfRange, P)) t) = (None, t')"
    from b have a: "?a < total_num_var F" by (auto split: if_splits)
    have ix: "sz_sub (sz_add (sz_mul ?a p) p) 1 = ?a * p + p - 1"
      using p a N by (rule sz_row_last)
    from b a short ix have r: "?a * p + p - 1 < length t"
      and t': "t' = t[?a * p + p - 1 := t ! (?a * p + p - 1) + w ! i]"
      by (auto simp: Let_def store_None split: if_splits)
    have S: "?S (Suc i) q = (if ?a * p + p - 1 = q then ?S i q + w ! i else ?S i q)" for q
      by simp
    show "?I (Suc i) t'"
    proof (intro conjI allI impI)
      show "length t' = length P" using I t' by simp
    next
      fix i0 assume "i0 < Suc i"
      then show "dep_taddr F ! i0 < total_num_var F" using I a by (cases "i0 = i") auto
    next
      fix q assume q: "q < length P"
      show "t' ! q = P ! q + ?S (Suc i) q"
      proof (cases "?a * p + p - 1 = q")
        case True
        then have "t' ! q = t ! q + w ! i" using t' r by simp
        also have "\<dots> = P ! q + ?S i q + w ! i" using I q by simp
        also have "\<dots> = P ! q + ?S (Suc i) q" using True by (simp add: S add.assoc)
        finally show ?thesis .
      next
        case False
        then have "t' ! q = t ! q" using t' by simp
        then show ?thesis using I q False by (simp add: S)
      qed
    qed
  qed
  then show ?thesis by simp
qed

text \<open>
  The long form: after the loop, the row of a dependent variable that no later
  dependent variable shares holds the weights of that variable, whatever earlier
  dependent variables at the same address had written there.
\<close>

lemma Reverse_seed_long_last:
  assumes run: "Reverse_seed F p w P = (None, P')"
    and long: "length w \<noteq> length (dep_taddr F)"
    and N: "total_num_var F * p < 2 ^ 64" and mp: "length (dep_taddr F) * p < 2 ^ 64"
  shows "length P' = length P
         \<and> (\<forall>i<length (dep_taddr F). dep_taddr F ! i < total_num_var F
               \<and> ((\<forall>i'. i < i' \<and> i' < length (dep_taddr F) \<longrightarrow> dep_taddr F ! i' \<noteq> dep_taddr F ! i)
                    \<longrightarrow> (\<forall>k<p. P' ! (dep_taddr F ! i * p + k) = w ! (i * p + k))))
         \<and> (\<forall>q. (\<forall>i<length (dep_taddr F). \<forall>k<p. q \<noteq> dep_taddr F ! i * p + k) \<longrightarrow> P' ! q = P ! q)"
proof -
  let ?m = "length (dep_taddr F)"
  let ?I = "\<lambda>i' u. length u = length P
              \<and> (\<forall>i<i'. dep_taddr F ! i < total_num_var F
                    \<and> ((\<forall>i''. i < i'' \<and> i'' < i' \<longrightarrow> dep_taddr F ! i'' \<noteq> dep_taddr F ! i)
                         \<longrightarrow> (\<forall>k<p. u ! (dep_taddr F ! i * p + k) = w ! (i * p + k))))
              \<and> (\<forall>q. (\<forall>i<i'. \<forall>k<p. q \<noteq> dep_taddr F ! i * p + k) \<longrightarrow> u ! q = P ! q)"
  have "?I ?m P'"
  proof (rule for_each_upt_normal [OF run [unfolded Reverse_seed_def], where I = ?I])
    show "?I 0 P" by simp
  next
    fix i t t'
    let ?a = "dep_taddr F ! i"
    assume i: "i < ?m" and I: "?I i t"
      and b: "(if \<not> ?a < total_num_var F then (Some Unknown, t)
          else if length w = ?m then
            (let ix = sz_sub (sz_add (sz_mul ?a p) p) 1 in
             if ix < length t \<and> i < length w then store t ix (t ! ix + w ! i)
             else (Some OutOfRange, t))
          else
            for_each [0..<p]
              (\<lambda>k P.
                 let iw = sz_add (sz_mul i p) k in
                 if iw < length w then store P (sz_add (sz_mul ?a p) k) (w ! iw)
                 else (Some OutOfRange, P)) t) = (None, t')"
    from b have a: "?a < total_num_var F" by (auto split: if_splits)
    from b a long have "for_each [0..<p]
              (\<lambda>k P. if sz_add (sz_mul i p) k < length w
                      then store P (sz_add (sz_mul ?a p) k) (w ! sz_add (sz_mul i p) k)
                      else (Some OutOfRange, P)) t = (None, t')"
      by (simp add: Let_def)
    from write_row_normal [OF this a N]
    have w: "length t' = length t" "\<forall>k<p. t' ! (?a * p + k) = w ! sz_add (sz_mul i p) k"
      "\<forall>q. q < ?a * p \<or> ?a * p + p \<le> q \<longrightarrow> t' ! q = t ! q" by auto
    have other: "t' ! (dep_taddr F ! i0 * p + k) = t ! (dep_taddr F ! i0 * p + k)"
      if "?a \<noteq> dep_taddr F ! i0" "k < p" for i0 k
      using rows_disjoint [OF that] w(3) by blast
    show "?I (Suc i) t'"
    proof (intro conjI allI impI)
      show "length t' = length P" using I w(1) by simp
    next
      fix i0 assume "i0 < Suc i"
      then show "dep_taddr F ! i0 < total_num_var F" using I a by (cases "i0 = i") auto
    next
      fix i0 k assume i0: "i0 < Suc i" and k: "k < p"
        and last: "\<forall>i''. i0 < i'' \<and> i'' < Suc i \<longrightarrow> dep_taddr F ! i'' \<noteq> dep_taddr F ! i0"
      show "t' ! (dep_taddr F ! i0 * p + k) = w ! (i0 * p + k)"
      proof (cases "i0 = i")
        case True
        then show ?thesis using w(2) k sz_row [OF k i mp] by simp
      next
        case False
        then have lt: "i0 < i" using i0 by simp
        then have "?a \<noteq> dep_taddr F ! i0" using last by simp
        then have "t' ! (dep_taddr F ! i0 * p + k) = t ! (dep_taddr F ! i0 * p + k)"
          using k by (rule other)
        moreover have "\<forall>i''. i0 < i'' \<and> i'' < i \<longrightarrow> dep_taddr F ! i'' \<noteq> dep_taddr F ! i0"
          using last by simp
        ultimately show ?thesis using I lt k by simp
      qed
    next
      fix q assume q: "\<forall>i0<Suc i. \<forall>k<p. q \<noteq> dep_taddr F ! i0 * p + k"
      have "q < ?a * p \<or> ?a * p + p \<le> q"
      proof (rule ccontr)
        assume "\<not> (q < ?a * p \<or> ?a * p + p \<le> q)"
        then have "q - ?a * p < p" "q = ?a * p + (q - ?a * p)" by auto
        then show False using q by blast
      qed
      then have "t' ! q = t ! q" using w(3) by blast
      then show "t' ! q = P ! q" using I q by simp
    qed
  qed
  then show ?thesis by simp
qed

lemma Reverse_seed_long_normal:
  assumes run: "Reverse_seed F p w P = (None, P')"
    and long: "length w \<noteq> length (dep_taddr F)"
    and N: "total_num_var F * p < 2 ^ 64" and mp: "length (dep_taddr F) * p < 2 ^ 64"
    and d: "distinct (dep_taddr F)"
  shows "length P' = length P
         \<and> (\<forall>i<length (dep_taddr F). dep_taddr F ! i < total_num_var F
               \<and> (\<forall>k<p. P' ! (dep_taddr F ! i * p + k) = w ! (i * p + k)))
         \<and> (\<forall>q. (\<forall>i<length (dep_taddr F). \<forall>k<p. q \<noteq> dep_taddr F ! i * p + k) \<longrightarrow> P' ! q = P ! q)"
proof -
  have "\<forall>i<length (dep_taddr F).
          \<forall>i'. i < i' \<and> i' < length (dep_taddr F) \<longrightarrow> dep_taddr F ! i' \<noteq> dep_taddr F ! i"
    using d by (auto simp: nth_eq_iff_index_eq)
  with Reverse_seed_long_last [OF run long N mp] show ?thesis by blast
qed

lemma last_col_inj:
  assumes "0 < p"
  shows "b * p + p - 1 = a * p + (p - 1) \<longleftrightarrow> b = (a::nat)"
proof (cases p)
  case 0
  then show ?thesis using assms by simp
next
  case (Suc p')
  have "b * Suc p' = a * Suc p' \<longleftrightarrow> b = a" using mult_cancel2 [of b "Suc p'" a] by simp
  moreover have "b * p + p - 1 = b * Suc p' + p'" "a * p + (p - 1) = a * Suc p' + p'"
    using Suc by simp_all
  ultimately show ?thesis by (simp del: mult_Suc_right)
qed

lemma filter_upt_eqI:
  assumes "sorted xs" "distinct xs" "\<And>i. i \<in> set xs \<longleftrightarrow> i < m \<and> P i"
  shows "filter P [0..<m] = (xs :: nat list)"
proof (rule sorted_distinct_set_unique)
  show "sorted (filter P [0..<m])" by (simp add: sorted_wrt_filter)
  show "set (filter P [0..<m]) = set xs" using assms(3) by auto
qed (use assms in auto)

lemma Reverse_seeded_normal:
  assumes run: "Reverse_seeded X p w F = (None, P2)" and N: "total_num_var F * p < 2 ^ 64"
  shows "Reverse_seed F p w (replicate (total_num_var F * p) 0) = (None, P2)"
proof -
  let ?P0 = "map (fresh X) [0..<sz_mul (total_num_var F) p]"
  from run obtain P1 where z: "Reverse_zero F p ?P0 = (None, P1)"
    and s: "Reverse_seed F p w P1 = (None, P2)"
    by (auto simp: Reverse_seeded_def Let_def split: option.splits prod.splits)
  have "length ?P0 = total_num_var F * p" using N by (simp add: sz_mul_eq)
  from Reverse_zero_normal [OF z this N] s show ?thesis by simp
qed

text \<open>
  With the short form and a dependent variable, a seeding that ends without error
  has \<open>p > 0\<close>: for \<open>p = 0\<close> the buffer is empty and the first write is outside it.
\<close>

lemma Reverse_seed_short_order:
  assumes run: "Reverse_seed F p w [] = (None, P')"
    and short: "length w = length (dep_taddr F)" and m: "dep_taddr F \<noteq> []"
  shows False
proof -
  have "[0..<length (dep_taddr F)] = 0 # [Suc 0..<length (dep_taddr F)]"
    using m by (simp add: upt_conv_Cons)
  then show False using run short
    by (auto simp: Reverse_seed_def Let_def split: if_splits)
qed

lemma Reverse_seeded_order:
  assumes run: "Reverse_seeded X p w F = (None, P)"
    and short: "length w = length (dep_taddr F)" and m: "dep_taddr F \<noteq> []"
    and N: "total_num_var F * p < 2 ^ 64"
  shows "0 < p"
proof (rule ccontr)
  assume "\<not> 0 < p"
  then have "Reverse_seed F p w [] = (None, P)" using Reverse_seeded_normal [OF run N] by simp
  then show False using short m by (rule Reverse_seed_short_order)
qed

lemma Reverse_seeded_short:
  fixes w :: "'b::monoid_add list"
  assumes run: "Reverse_seeded X p w F = (None, P)"
    and short: "length w = length (dep_taddr F)"
    and p: "0 < p" and N: "total_num_var F * p < 2 ^ 64"
  shows "length P = total_num_var F * p
         \<and> (\<forall>i<length (dep_taddr F). dep_taddr F ! i < total_num_var F)
         \<and> (\<forall>q<total_num_var F * p. P ! q =
               sum_list (map ((!) w)
                 (filter (\<lambda>i. dep_taddr F ! i * p + p - 1 = q) [0..<length (dep_taddr F)])))"
proof -
  from Reverse_seeded_normal [OF run N]
  have s: "Reverse_seed F p w (replicate (total_num_var F * p) 0) = (None, P)" .
  from Reverse_seed_short_normal [OF s short p N] show ?thesis by simp
qed

text \<open>
  Claim C4. \<open>w\<close> has the short form. If exactly two dependent variables \<open>i1\<close> and
  \<open>i2\<close> have the address \<open>a\<close>, the buffer that \<^verbatim>\<open>Reverse\<close> hands to \<^verbatim>\<open>ReverseSweep\<close>
  holds \<open>w[i1] + w[i2]\<close> in row \<open>a\<close> at order \<open>p - 1\<close>. (\<open>Base\<close> is an additive
  monoid here: \<open>0 + x = x\<close> and \<open>+\<close> is associative; \<open>total_num_var * p\<close> is taken to
  fit in a \<^verbatim>\<open>size_t\<close>.)
\<close>

theorem Reverse_seeds_sum_short:
  fixes w :: "'b::monoid_add list"
  assumes run: "Reverse_seeded X p w F = (None, P)"
    and short: "length w = length (dep_taddr F)"
    and N: "total_num_var F * p < 2 ^ 64"
    and i: "i1 < i2" "i2 < length (dep_taddr F)"
    and a: "dep_taddr F ! i1 = a" "dep_taddr F ! i2 = a"
    and only: "\<forall>i<length (dep_taddr F). dep_taddr F ! i = a \<longrightarrow> i = i1 \<or> i = i2"
  shows "P ! (a * p + (p - 1)) = w ! i1 + w ! i2"
proof -
  have "dep_taddr F \<noteq> []" using i by auto
  then have p: "0 < p" by (rule Reverse_seeded_order [OF run short _ N])
  from Reverse_seeded_short [OF run short p N]
  have dep: "\<forall>i<length (dep_taddr F). dep_taddr F ! i < total_num_var F"
    and val: "\<forall>q<total_num_var F * p. P ! q =
               sum_list (map ((!) w)
                 (filter (\<lambda>i. dep_taddr F ! i * p + p - 1 = q) [0..<length (dep_taddr F)]))"
    by auto
  have "a < total_num_var F" using dep i a by auto
  then have q: "a * p + (p - 1) < total_num_var F * p" using p by (intro row_index) simp_all
  have "filter (\<lambda>i. dep_taddr F ! i * p + p - 1 = a * p + (p - 1)) [0..<length (dep_taddr F)]
          = [i1, i2]"
  proof (rule filter_upt_eqI)
    fix i
    have "dep_taddr F ! i * p + p - 1 = a * p + (p - 1) \<longleftrightarrow> dep_taddr F ! i = a"
      using p by (rule last_col_inj)
    then show "i \<in> set [i1, i2]
                 \<longleftrightarrow> i < length (dep_taddr F) \<and> dep_taddr F ! i * p + p - 1 = a * p + (p - 1)"
      using i a only by auto
  qed (use i in auto)
  then show ?thesis using val q by simp
qed

theorem Reverse_seeds_sum_short_witness:
  "Reverse_seeded identity_layer 2 [3, 4] aliased_fun = (None, [0, 0, 0, 7])
   \<and> length [3, 4 :: real] = length (dep_taddr aliased_fun)
   \<and> dep_taddr aliased_fun ! 0 = 1 \<and> dep_taddr aliased_fun ! 1 = 1
   \<and> [0, 0, 0, 7 :: real] ! (1 * 2 + (2 - 1)) = [3, 4] ! 0 + [3, 4] ! 1"
proof -
  have run: "Reverse_seeded identity_layer 2 [3, 4] aliased_fun = (None, [0, 0, 0, 7])"
    by (simp add: model_defs identity_layer_def identity_fun_def aliased_fun_def upt_rec)
  have short: "length [3, 4 :: real] = length (dep_taddr aliased_fun)"
    and N: "total_num_var aliased_fun * 2 < 2 ^ 64"
    and i: "(0::nat) < 1" "1 < length (dep_taddr aliased_fun)"
    and a: "dep_taddr aliased_fun ! 0 = 1" "dep_taddr aliased_fun ! 1 = 1"
    and only: "\<forall>i<length (dep_taddr aliased_fun). dep_taddr aliased_fun ! i = 1 \<longrightarrow> i = 0 \<or> i = 1"
    by (auto simp: aliased_fun_def identity_fun_def)
  have c: "[0, 0, 0, 7 :: real] ! (1 * 2 + (2 - 1)) = [3, 4] ! 0 + [3, 4] ! 1"
    by (rule Reverse_seeds_sum_short [OF run short N i a only])
  show ?thesis by (intro conjI run short a c)
qed

text \<open>
  In general: with the long form, the seeded row of an address holds the weights of
  the last dependent variable at that address alone.
\<close>

lemma Reverse_seeds_long_last:
  fixes w :: "'b::{zero,plus} list"
  assumes run: "Reverse_seeded X p w F = (None, P)"
    and long: "length w \<noteq> length (dep_taddr F)"
    and N: "total_num_var F * p < 2 ^ 64" and mp: "length (dep_taddr F) * p < 2 ^ 64"
    and i: "i < length (dep_taddr F)"
    and last: "\<forall>i'. i < i' \<and> i' < length (dep_taddr F) \<longrightarrow> dep_taddr F ! i' \<noteq> dep_taddr F ! i"
    and k: "k < p"
  shows "P ! (dep_taddr F ! i * p + k) = w ! (i * p + k)"
proof -
  from Reverse_seeded_normal [OF run N]
  have "Reverse_seed F p w (replicate (total_num_var F * p) 0) = (None, P)" .
  from Reverse_seed_long_last [OF this long N mp] i last k show ?thesis by blast
qed

text \<open>
  Claim C3, on the source: with the long form the seeding loop assigns
  (\<^verbatim>\<open>Partial[dep_taddr_[i] * p + k] = w[i * p + k]\<close>), it does not add. For
  \<open>x0 \<mapsto> (x0, x0)\<close>, \<open>p = 2\<close> and \<open>w = [1, 2, 3, 4]\<close> the seeded row of address 1 is
  \<open>[3, 4]\<close>, the weights of the second dependent variable alone, where the sum of both
  is \<open>[4, 6]\<close>; as no operator of this tape propagates, the call returns \<open>[3, 4]\<close>.
\<close>

theorem Reverse_seeds_long_overwrites:
  "Reverse_seeded identity_layer 2 [1, 2, 3, 4] aliased_fun = (None, [0, 0, 3, 4])
   \<and> fst (Reverse identity_layer 2 [1, 2, 3, 4] aliased_fun) = Inr [3, 4]"
  by (simp add: model_defs identity_layer_def identity_fun_def aliased_fun_def upt_rec)

subsection \<open>Short and long weights\<close>

lemma row_col_unique: "k < p \<Longrightarrow> k' < p \<Longrightarrow> a * p + k = b * p + k' \<Longrightarrow> k = (k'::nat)"
proof -
  assume h: "k < p" "k' < p" "a * p + k = b * p + k'"
  have 1: "(a * p + k) mod p = k" using h(1) by simp
  have 2: "(b * p + k') mod p = k'" using h(2) by simp
  show ?thesis using 1 2 h(3) by metis
qed

lemma Reverse_seeded_long:
  fixes w :: "'b::{zero,plus} list"
  assumes run: "Reverse_seeded X p w F = (None, P)"
    and long: "length w \<noteq> length (dep_taddr F)"
    and N: "total_num_var F * p < 2 ^ 64" and mp: "length (dep_taddr F) * p < 2 ^ 64"
    and d: "distinct (dep_taddr F)"
  shows "length P = total_num_var F * p
         \<and> (\<forall>i<length (dep_taddr F). dep_taddr F ! i < total_num_var F
               \<and> (\<forall>k<p. P ! (dep_taddr F ! i * p + k) = w ! (i * p + k)))
         \<and> (\<forall>q<total_num_var F * p.
               (\<forall>i<length (dep_taddr F). \<forall>k<p. q \<noteq> dep_taddr F ! i * p + k) \<longrightarrow> P ! q = 0)"
proof -
  from Reverse_seeded_normal [OF run N]
  have s: "Reverse_seed F p w (replicate (total_num_var F * p) 0) = (None, P)" .
  from Reverse_seed_long_normal [OF s long N mp d] show ?thesis by simp
qed

lemma short_long_seeded:
  fixes w :: "'b::monoid_add list"
  assumes short: "Reverse_seeded X p w F = (None, Ps)"
    and long: "Reverse_seeded X p wl F = (None, Pl)"
    and lw: "length w = length (dep_taddr F)" and lwl: "length wl \<noteq> length (dep_taddr F)"
    and onehot: "\<forall>i<length (dep_taddr F). \<forall>k<p. wl ! (i * p + k) = (if k = p - 1 then w ! i else 0)"
    and d: "distinct (dep_taddr F)" and p: "0 < p"
    and N: "total_num_var F * p < 2 ^ 64" and mp: "length (dep_taddr F) * p < 2 ^ 64"
  shows "Ps = Pl"
proof (rule nth_equalityI)
  let ?m = "length (dep_taddr F)"
  let ?f = "\<lambda>q. filter (\<lambda>i. dep_taddr F ! i * p + p - 1 = q) [0..<?m]"
  from Reverse_seeded_short [OF short lw p N]
  have ls: "length Ps = total_num_var F * p"
    and vs: "\<forall>q<total_num_var F * p. Ps ! q = sum_list (map ((!) w) (?f q))" by auto
  from Reverse_seeded_long [OF long lwl N mp d]
  have ll: "length Pl = total_num_var F * p"
    and vl: "\<forall>i<?m. \<forall>k<p. Pl ! (dep_taddr F ! i * p + k) = wl ! (i * p + k)"
    and zl: "\<forall>q<total_num_var F * p.
               (\<forall>i<?m. \<forall>k<p. q \<noteq> dep_taddr F ! i * p + k) \<longrightarrow> Pl ! q = 0" by auto
  show "length Ps = length Pl" using ls ll by simp
  fix q assume "q < length Ps"
  then have q: "q < total_num_var F * p" using ls by simp
  show "Ps ! q = Pl ! q"
  proof (cases "\<exists>i<?m. \<exists>k<p. q = dep_taddr F ! i * p + k")
    case True
    then obtain i k where i: "i < ?m" and k: "k < p" and qe: "q = dep_taddr F ! i * p + k"
      by blast
    have l: "Pl ! q = (if k = p - 1 then w ! i else 0)" using vl onehot i k qe by simp
    show ?thesis
    proof (cases "k = p - 1")
      case True
      have "?f q = [i]"
      proof (rule filter_upt_eqI)
        fix i'
        have "dep_taddr F ! i' * p + p - 1 = q \<longleftrightarrow> dep_taddr F ! i' = dep_taddr F ! i"
          unfolding qe True using p by (rule last_col_inj)
        also have "i' < ?m \<Longrightarrow> dep_taddr F ! i' = dep_taddr F ! i \<longleftrightarrow> i' = i"
          using d i by (simp add: nth_eq_iff_index_eq)
        finally show "i' \<in> set [i] \<longleftrightarrow> i' < ?m \<and> dep_taddr F ! i' * p + p - 1 = q"
          using i by auto
      qed simp_all
      then show ?thesis using vs q l True by simp
    next
      case False
      have "?f q = []"
      proof (rule filter_upt_eqI)
        fix i'
        have "dep_taddr F ! i' * p + p - 1 \<noteq> q"
        proof
          assume e: "dep_taddr F ! i' * p + p - 1 = q"
          have "dep_taddr F ! i' * p + (p - 1) = dep_taddr F ! i * p + k"
            using e qe p by arith
          moreover have "p - 1 < p" using p by simp
          ultimately have "p - 1 = k" using k by (rule row_col_unique [rotated 2])
          then show False using False by simp
        qed
        then show "i' \<in> set [] \<longleftrightarrow> i' < ?m \<and> dep_taddr F ! i' * p + p - 1 = q" by simp
      qed simp_all
      then show ?thesis using vs q l False by simp
    qed
  next
    case False
    then have z: "Pl ! q = 0" using zl q by blast
    have "?f q = []"
    proof (rule filter_upt_eqI)
      fix i'
      have "\<not> (i' < ?m \<and> dep_taddr F ! i' * p + p - 1 = q)"
      proof
        assume e: "i' < ?m \<and> dep_taddr F ! i' * p + p - 1 = q"
        then have "q = dep_taddr F ! i' * p + (p - 1)" "p - 1 < p" using p by auto
        then show False using False e by blast
      qed
      then show "i' \<in> set [] \<longleftrightarrow> i' < ?m \<and> dep_taddr F ! i' * p + p - 1 = q" by simp
    qed simp_all
    then show ?thesis using vs q z by simp
  qed
qed

text \<open>
  Claim C8, as the source has it. Let \<open>p > 1\<close>, let there be a dependent variable,
  let the addresses of the dependent variables be pairwise distinct, and let \<open>wl\<close> be
  the long form that holds \<open>w[i]\<close> at order \<open>p - 1\<close> and zero at the other orders. Then both calls hand the same buffer to
  \<^verbatim>\<open>ReverseSweep\<close>, and the two returned vectors hold the same numbers in reversed
  order of \<open>k\<close>: entry \<open>(j, k)\<close> of the short form's result is entry \<open>(j, p - 1 - k)\<close>
  of the long form's. (\<open>Base\<close> is an additive monoid; the sizes fit in a \<^verbatim>\<open>size_t\<close>.)
\<close>

theorem Reverse_short_long_reversed:
  fixes w :: "'b::monoid_add list"
  assumes short: "Reverse X p w F = (Inr dw, B, F1)"
    and long: "Reverse X p wl F = (Inr dwl, Bl, F2)"
    and lw: "length w = length (dep_taddr F)"
    and lwl: "length wl = length (dep_taddr F) * p"
    and p1: "1 < p" and m0: "dep_taddr F \<noteq> []"
    and onehot: "\<forall>i<length (dep_taddr F). \<forall>k<p. wl ! (i * p + k) = (if k = p - 1 then w ! i else 0)"
    and d: "distinct (dep_taddr F)"
    and N: "total_num_var F * p < 2 ^ 64" and n: "length (ind_taddr F) * p < 2 ^ 64"
    and mp: "length (dep_taddr F) * p < 2 ^ 64"
  shows "Bl = B \<and> (\<forall>j<length (ind_taddr F). \<forall>k<p. dw ! (j * p + k) = dwl ! (j * p + (p - 1 - k)))"
proof -
  have ne: "length wl \<noteq> length (dep_taddr F)" using lwl p1 m0 by simp
  from short obtain Ps where ps: "Reverse_seeded X p w F = (None, Ps)"
    by (auto simp: Reverse_def Let_def split: prod.splits option.splits)
  from long obtain Pl where pl: "Reverse_seeded X p wl F = (None, Pl)"
    by (auto simp: Reverse_def Let_def split: prod.splits option.splits)
  have p0: "0 < p" using p1 by simp
  have eq: "Ps = Pl" by (rule short_long_seeded [OF ps pl lw ne onehot d p0 N mp])
  have bs: "B = ReverseSweep X (sz_sub p 1) (length (ind_taddr F)) (total_num_var F) (play F)
               (taylor_col_dim F) (taylor F) p Ps"
    and es: "Reverse_extract X F p w B (map (fresh X) [0..<sz_mul (length (ind_taddr F)) p])
               = (None, dw)"
    using short ps by (auto simp: Reverse_def Let_def split: prod.splits option.splits)
  have bl: "Bl = ReverseSweep X (sz_sub p 1) (length (ind_taddr F)) (total_num_var F) (play F)
               (taylor_col_dim F) (taylor F) p Pl"
    and el: "Reverse_extract X F p wl Bl (map (fresh X) [0..<sz_mul (length (ind_taddr F)) p])
               = (None, dwl)"
    using long pl by (auto simp: Reverse_def Let_def split: prod.splits option.splits)
  have B: "Bl = B" using bs bl eq by simp
  have "dw ! (j * p + k) = dwl ! (j * p + (p - 1 - k))"
    if j: "j < length (ind_taddr F)" and k: "k < p" for j k
  proof -
    have k': "p - 1 - k < p" using k by simp
    have "dw ! (j * p + k) = B ! (ind_taddr F ! j * p + p - 1 - k)"
      using Reverse_extract_normal [OF es n N] j k lw by simp
    moreover have "dwl ! (j * p + (p - 1 - k)) = Bl ! (ind_taddr F ! j * p + (p - 1 - k))"
      using Reverse_extract_normal [OF el n N] j k' ne by simp
    moreover have "ind_taddr F ! j * p + p - 1 - k = ind_taddr F ! j * p + (p - 1 - k)"
      using k by simp
    ultimately show ?thesis using B by simp
  qed
  then show ?thesis using B by simp
qed

theorem Reverse_short_long_reversed_witness:
  "Reverse identity_layer 2 [1] identity_fun = (Inr [1, 0], [0, 0, 0, 1], identity_fun)
   \<and> Reverse identity_layer 2 [0, 1] identity_fun = (Inr [0, 1], [0, 0, 0, 1], identity_fun)
   \<and> (1::nat) < 2 \<and> distinct (dep_taddr identity_fun)
   \<and> [1, 0 :: real] ! (0 * 2 + 0) = [0, 1] ! (0 * 2 + (2 - 1 - 0))
   \<and> [1, 0 :: real] ! (0 * 2 + 1) = [0, 1] ! (0 * 2 + (2 - 1 - 1))"
proof -
  have short: "Reverse identity_layer 2 [1] identity_fun = (Inr [1, 0], [0, 0, 0, 1], identity_fun)"
    by (simp add: model_defs identity_layer_def identity_fun_def upt_rec)
  have long: "Reverse identity_layer 2 [0, 1] identity_fun
                = (Inr [0, 1], [0, 0, 0, 1], identity_fun)"
    by (simp add: model_defs identity_layer_def identity_fun_def upt_rec)
  have lw: "length [1 :: real] = length (dep_taddr identity_fun)"
    and lwl: "length [0, 1 :: real] = length (dep_taddr identity_fun) * 2"
    and p1: "(1::nat) < 2" and m0: "dep_taddr identity_fun \<noteq> []"
    and d: "distinct (dep_taddr identity_fun)"
    and N: "total_num_var identity_fun * 2 < 2 ^ 64"
    and n: "length (ind_taddr identity_fun) * 2 < 2 ^ 64"
    and mp: "length (dep_taddr identity_fun) * 2 < 2 ^ 64"
    by (simp_all add: identity_fun_def)
  have onehot: "\<forall>i<length (dep_taddr identity_fun). \<forall>k<2.
                  [0, 1 :: real] ! (i * 2 + k) = (if k = 2 - 1 then [1] ! i else 0)"
    by (auto simp: identity_fun_def less_Suc_eq numeral_2_eq_2)
  have j: "0 < length (ind_taddr identity_fun)" by (simp add: identity_fun_def)
  from Reverse_short_long_reversed [OF short long lw lwl p1 m0 onehot d N n mp] j
  have c: "[1, 0 :: real] ! (0 * 2 + 0) = [0, 1] ! (0 * 2 + (2 - 1 - 0))"
    "[1, 0 :: real] ! (0 * 2 + 1) = [0, 1] ! (0 * 2 + (2 - 1 - 1))" by simp_all
  show ?thesis by (intro conjI short long p1 d c)
qed

text \<open>
  The two returned vectors are not equal in general: on the tape of \<open>y = x0\<close> with
  \<open>p = 2\<close> the short form \<open>[1]\<close> returns \<open>[1, 0]\<close> and the long form \<open>[0, 1]\<close> returns
  \<open>[0, 1]\<close>.
\<close>

theorem Reverse_short_long_counterexample:
  "fst (Reverse identity_layer 2 [1] identity_fun) = Inr [1, 0]
   \<and> fst (Reverse identity_layer 2 [0, 1] identity_fun) = Inr [0, 1]
   \<and> fst (Reverse identity_layer 2 [1] identity_fun)
       \<noteq> fst (Reverse identity_layer 2 [0, 1] identity_fun)"
  by (simp add: model_defs identity_layer_def identity_fun_def upt_rec)

subsection \<open>The member buffer of the selective sweep\<close>

lemma for_each_normal_induct:
  assumes "for_each xs body s = (None, s')" and "I [] s"
    and "\<And>ys x t t'. x \<in> set xs \<Longrightarrow> I ys t \<Longrightarrow> body x t = (None, t') \<Longrightarrow> I (ys @ [x]) t'"
  shows "I xs s'"
proof -
  have "for_each xs body s = (None, s') \<Longrightarrow> I pre s \<Longrightarrow>
        (\<And>ys x t t'. x \<in> set xs \<Longrightarrow> I ys t \<Longrightarrow> body x t = (None, t') \<Longrightarrow> I (ys @ [x]) t')
        \<Longrightarrow> I (pre @ xs) s'" for pre
  proof (induction xs arbitrary: pre s)
    case Nil
    then show ?case by simp
  next
    case (Cons x xs)
    from Cons.prems(1) obtain s1 where b: "body x s = (None, s1)"
      and r: "for_each xs body s1 = (None, s')"
      by (auto split: prod.splits option.splits)
    have "I (pre @ [x]) s1" using Cons.prems(2,3) b by simp
    from Cons.IH [OF r this] Cons.prems(3) show ?case by simp
  qed
  from this [of "[]"] assms show ?thesis by simp
qed

lemma for_each_single: "for_each [x] body = body x"
  by (rule ext) (auto split: prod.splits option.splits)

lemma clear_index: "sz_add (sz_sub v (sz_mul i (Suc 0))) 0 = sz_sub v i"
  by (simp add: sz_add_def sz_sub_def sz_mul_def)

lemma zero_rows_normal:
  fixes t :: "'b::zero list"
  assumes run: "for_each [0..<R] (\<lambda>i P. store P (sz_sub v i) 0) t = (None, t')"
  shows "length t' = length t \<and> (\<forall>i<R. sz_sub v i < length t \<and> t' ! sz_sub v i = 0)
         \<and> (\<forall>k. t' ! k = 0 \<or> t' ! k = t ! k)"
proof -
  let ?I = "\<lambda>i' u. length u = length t \<and> (\<forall>i<i'. sz_sub v i < length t \<and> u ! sz_sub v i = 0)
              \<and> (\<forall>k. u ! k = 0 \<or> u ! k = t ! k)"
  have "?I R t'"
  proof (rule for_each_upt_normal [OF run, where I = ?I])
    show "?I 0 t" by simp
  next
    fix i u u'
    assume "i < R" and I: "?I i u" and b: "store u (sz_sub v i) 0 = (None, u')"
    from b have r: "sz_sub v i < length u" and u': "u' = u[sz_sub v i := 0]"
      by (auto simp: store_None)
    show "?I (Suc i) u'"
      using I r unfolding u' by (auto simp: nth_list_update less_Suc_eq)
  qed
  then show ?thesis by simp
qed

lemma myReverse_clear_normal:
  fixes P :: "'b::zero list"
  assumes run: "myReverse_clear X F 1 P = (None, P')"
  shows "length P' = length P \<and> (\<forall>k. P' ! k = 0 \<or> P' ! k = P ! k)
         \<and> (\<forall>k\<in>set (cleared_rows X F). k < length P \<and> P' ! k = 0)"
proof -
  let ?rows = "\<lambda>it. map (\<lambda>i. sz_sub (var_index (tp F ! it)) i) [0..<NumRes X (op (tp F ! it))]"
  let ?I = "\<lambda>ys u. length u = length P \<and> (\<forall>k. u ! k = 0 \<or> u ! k = P ! k)
              \<and> (\<forall>it\<in>set ys. \<forall>k\<in>set (?rows it). k < length P \<and> u ! k = 0)"
  have "?I (op_mark_index F) P'"
  proof (rule for_each_normal_induct [OF run [unfolded myReverse_clear_def], where I = ?I])
    show "?I [] P" by simp
  next
    fix ys it u u'
    assume "it \<in> set (op_mark_index F)" and I: "?I ys u"
      and b: "(if \<not> it < length (tp F) then (Some OutOfRange, u)
          else
            let t = tp F ! it in
            for_each [0..<NumRes X (op t)]
              (\<lambda>i. for_each [0..<1]
                      (\<lambda>j P. store P (sz_add (sz_sub (var_index t) (sz_mul i 1)) j) 0)) u)
           = (None, u')"
    from b have "for_each [0..<NumRes X (op (tp F ! it))]
                   (\<lambda>i P. store P (sz_sub (var_index (tp F ! it)) i) 0) u = (None, u')"
      by (simp add: Let_def for_each_single clear_index split: if_splits)
    from zero_rows_normal [OF this]
    have z: "length u' = length u" "\<forall>k\<in>set (?rows it). k < length u \<and> u' ! k = 0"
      "\<forall>k. u' ! k = 0 \<or> u' ! k = u ! k" by auto
    show "?I (ys @ [it]) u'"
    proof (intro conjI allI ballI)
      show "length u' = length P" using z(1) I by simp
    next
      fix k show "u' ! k = 0 \<or> u' ! k = P ! k" using z(3) [rule_format, of k] I by auto
    next
      fix it' k assume it': "it' \<in> set (ys @ [it])" and k: "k \<in> set (?rows it')"
      show "k < length P" using it' k z(2) I by auto
      show "u' ! k = 0"
      proof (cases "it' = it")
        case True
        then show ?thesis using z(2) k by blast
      next
        case False
        then have "u ! k = 0" using it' k I by auto
        then show ?thesis using z(3) [rule_format, of k] by auto
      qed
    qed
  qed
  then show ?thesis by (auto simp: cleared_rows_def)
qed

lemma myReverse_restores_zero_once:
  fixes F :: "('b::{zero,one}, 'op, 'tape) ADFun"
  assumes z: "all_zero (Partial F)"
    and run: "myReverse X 1 w dep_var_index v F = (None, v', F')"
    and mc: "marking_complete X F (snd (myReverse_propagated X 1 dep_var_index F))"
  shows "all_zero (Partial F')"
proof -
  from run obtain F2 where pr: "myReverse_propagated X 1 dep_var_index F = (None, F2)"
    by (auto simp: myReverse_def split: option.splits prod.splits)
  from run pr obtain P' where cl: "myReverse_clear X F2 1 (Partial F2) = (None, P')"
    and F': "F' = F2\<lparr>Partial := P'\<rparr>"
    by (auto simp: myReverse_def split: option.splits prod.splits)
  from myReverse_clear_normal [OF cl]
  have len: "length P' = length (Partial F2)"
    and frame: "\<forall>k. P' ! k = 0 \<or> P' ! k = Partial F2 ! k"
    and cleared: "\<forall>k\<in>set (cleared_rows X F2). P' ! k = 0" by auto
  have "P' ! k = 0" if k: "k < length P'" for k
  proof (cases "k \<in> set (cleared_rows X F2)")
    case True
    then show ?thesis using cleared by simp
  next
    case False
    then have "k < length (Partial F)" "Partial F2 ! k = Partial F ! k"
      using mc k len unfolding marking_complete_def pr by auto
    moreover from this z have "Partial F ! k = 0" by (simp add: all_zero_def)
    ultimately show ?thesis using frame [rule_format, of k] by auto
  qed
  then show ?thesis unfolding F' by (auto simp: all_zero_def in_set_conv_nth)
qed

text \<open>
  Claim C1. Let the member buffer be all zero on entry. A call to \<^verbatim>\<open>myReverse\<close> of
  first order that returns, and whose marking is complete, leaves the buffer all
  zero; and so does every sequence of such calls on the same object.
\<close>

theorem myReverse_restores_zero:
  fixes F :: "('b::{zero,one}, 'op, 'tape) ADFun"
  assumes "all_zero (Partial F)"
  shows "(p = 1 \<and> myReverse X p w dep_var_index v F = (None, v', F')
          \<and> marking_complete X F (snd (myReverse_propagated X p dep_var_index F))
          \<longrightarrow> all_zero (Partial F'))
       \<and> (myReverse_calls X cs F = (None, F'') \<and> calls_complete X cs F
          \<longrightarrow> all_zero (Partial F''))"
proof (intro conjI impI)
  assume "p = 1 \<and> myReverse X p w dep_var_index v F = (None, v', F')
          \<and> marking_complete X F (snd (myReverse_propagated X p dep_var_index F))"
  then show "all_zero (Partial F')" using assms myReverse_restores_zero_once by blast
next
  assume "myReverse_calls X cs F = (None, F'') \<and> calls_complete X cs F"
  then show "all_zero (Partial F'')" using assms
  proof (induction cs arbitrary: F)
    case Nil
    then show ?case by simp
  next
    case (Cons c cs)
    obtain q u i x where c: "c = (q, u, i, x)" by (cases c)
    from Cons.prems(1) obtain x1 F1 where r1: "myReverse X q u i x F = (None, x1, F1)"
      and rest: "myReverse_calls X cs F1 = (None, F'')"
      unfolding c by (auto split: prod.splits option.splits)
    from Cons.prems(1) have q: "q = 1"
      and mc: "marking_complete X F (snd (myReverse_propagated X q i F))"
      and cc: "calls_complete X cs F1" unfolding c using r1 by auto
    have "all_zero (Partial F1)"
      by (rule myReverse_restores_zero_once [OF Cons.prems(2) r1 [unfolded q] mc [unfolded q]])
    with Cons.IH [of F1] rest cc show ?case by simp
  qed
qed

lemma all_less_upt: "(\<forall>k<n. P k) \<longleftrightarrow> list_all P [0..<n]"
  by (auto simp: list_all_iff)

theorem myReverse_restores_zero_witness:
  "all_zero (Partial product_fun)
   \<and> myReverse product_layer 1 [1] 0 [9, 9, 9] product_fun =
       (None, [5, 3, 9], product_fun\<lparr>op_inv_index := [1, 2], op_mark_index := [5, 4, 2, 1]\<rparr>)
   \<and> marking_complete product_layer product_fun
        (snd (myReverse_propagated product_layer 1 0 product_fun))
   \<and> all_zero (Partial (product_fun\<lparr>op_inv_index := [1, 2], op_mark_index := [5, 4, 2, 1]\<rparr>))
   \<and> myReverse_calls product_layer [(1, [1], 0, [9, 9, 9]), (1, [1], 0, [8, 8, 8])] product_fun =
       (None, product_fun\<lparr>op_inv_index := [1, 2], op_mark_index := [5, 4, 2, 1]\<rparr>)
   \<and> calls_complete product_layer [(1, [1], 0, [9, 9, 9]), (1, [1], 0, [8, 8, 8])] product_fun"
proof -
  let ?F' = "product_fun\<lparr>op_inv_index := [1, 2], op_mark_index := [5, 4, 2, 1]\<rparr>"
  have z: "all_zero (Partial product_fun)" by (simp add: all_zero_def product_fun_def)
  have r1: "myReverse product_layer 1 [1] 0 [9, 9, 9] product_fun = (None, [5, 3, 9], ?F')"
    by (simp add: model_defs product_layer_def identity_layer_def product_fun_def product_ops_def spec_defs upt_rec)
  have r2: "myReverse product_layer 1 [1] 0 [8, 8, 8] ?F' = (None, [5, 3, 8], ?F')"
    by (simp add: model_defs product_layer_def identity_layer_def product_fun_def product_ops_def spec_defs upt_rec)
  have mc: "marking_complete product_layer product_fun
              (snd (myReverse_propagated product_layer 1 0 product_fun))"
    by (simp add: marking_complete_def cleared_rows_def all_less_upt model_defs
        product_layer_def identity_layer_def product_fun_def product_ops_def spec_defs upt_rec)
  have mc': "marking_complete product_layer ?F' (snd (myReverse_propagated product_layer 1 0 ?F'))"
    by (simp add: marking_complete_def cleared_rows_def all_less_upt model_defs
        product_layer_def identity_layer_def product_fun_def product_ops_def spec_defs upt_rec)
  have calls: "myReverse_calls product_layer [(1, [1], 0, [9, 9, 9]), (1, [1], 0, [8, 8, 8])]
                 product_fun = (None, ?F')"
    by (simp only: myReverse_calls.simps r1 r2 prod.case option.case)
  have cc: "calls_complete product_layer [(1, [1], 0, [9, 9, 9]), (1, [1], 0, [8, 8, 8])]
              product_fun"
    by (simp only: calls_complete.simps r1 snd_conv mc mc' simp_thms)
  from myReverse_restores_zero [OF z, of 1 product_layer "[1]" 0 "[9, 9, 9]" "[5, 3, 9]" ?F'
      "[(1, [1], 0, [9, 9, 9]), (1, [1], 0, [8, 8, 8])]" ?F'] r1 mc calls cc
  have "all_zero (Partial ?F')" by blast
  then show ?thesis by (intro conjI z r1 mc calls cc)
qed

subsection \<open>The selective sweep against the full sweep\<close>

lemma all_zero_replicate: "all_zero P \<longleftrightarrow> P = replicate (length P) 0"
proof
  assume "all_zero P"
  then show "P = replicate (length P) 0"
    by (intro replicate_eqI) (auto simp: all_zero_def)
next
  assume "P = replicate (length P) 0"
  then have "set P \<subseteq> {0}" by (metis set_replicate_conv_if empty_subsetI subset_refl)
  then show "all_zero P" by (auto simp: all_zero_def)
qed

lemma sum_unit_weight:
  fixes xs :: "nat list"
  assumes "distinct xs" "\<forall>x\<in>set xs. x < m"
  shows "sum_list (map ((!) (unit_weight m i :: 'b::{monoid_add,one} list)) xs)
           = (if i \<in> set xs then 1 else 0)"
  using assms
proof (induction xs)
  case Nil
  then show ?case by simp
next
  case (Cons x xs)
  have "(unit_weight m i :: 'b list) ! x = (if x = i then 1 else 0)"
    using Cons.prems(2) by (simp add: unit_weight_def nth_list_update)
  then show ?case using Cons by auto
qed

lemma myReverse_extract_normal:
  assumes run: "myReverse_extract F 1 v = (None, v')"
  shows "\<forall>it\<in>set (op_inv_index F).
           sz_sub it 1 < length (ind_taddr F) \<and> sz_sub it 1 < length v
           \<and> v' ! sz_sub it 1 =
               Partial F ! sz_sub (sz_sub (sz_add (sz_mul (ind_taddr F ! sz_sub it 1) 1) 1) 1) 0"
proof -
  let ?val = "\<lambda>it. Partial F ! sz_sub (sz_sub (sz_add (sz_mul (ind_taddr F ! sz_sub it 1) 1) 1) 1) 0"
  let ?I = "\<lambda>ys u. length u = length v
              \<and> (\<forall>it\<in>set ys. sz_sub it 1 < length (ind_taddr F) \<and> sz_sub it 1 < length v
                     \<and> u ! sz_sub it 1 = ?val it)"
  have "?I (op_inv_index F) v'"
  proof (rule for_each_normal_induct [OF run [unfolded myReverse_extract_def], where I = ?I])
    show "?I [] v" by simp
  next
    fix ys it u u'
    assume "it \<in> set (op_inv_index F)" and I: "?I ys u"
      and b: "(let j = sz_sub it 1 in
          for_each [0..<1]
            (\<lambda>k v.
               if \<not> j < length (ind_taddr F) then (Some OutOfRange, v)
               else
                 let ix = sz_sub (sz_sub (sz_add (sz_mul (ind_taddr F ! j) 1) 1) 1) k in
                 if ix < length (Partial F) then store v (sz_add (sz_mul j 1) k) (Partial F ! ix)
                 else (Some OutOfRange, v)) u) = (None, u')"
    from b have j: "sz_sub it 1 < length (ind_taddr F)" and r: "sz_sub it 1 < length u"
      and u': "u' = u[sz_sub it 1 := ?val it]"
      by (auto simp: Let_def for_each_single store_None sz_one_row split: if_splits)
    show "?I (ys @ [it]) u'"
    proof (intro conjI ballI)
      show "length u' = length v" using I u' by simp
    next
      fix it' assume it': "it' \<in> set (ys @ [it])"
      show "sz_sub it' 1 < length (ind_taddr F)" using it' I j by auto
      show "sz_sub it' 1 < length v" using it' I r by auto
      show "u' ! sz_sub it' 1 = ?val it'"
      proof (cases "sz_sub it' 1 = sz_sub it 1")
        case True
        then show ?thesis using u' r by simp
      next
        case False
        then have "it' \<in> set ys" using it' by auto
        then show ?thesis using I False u' by simp
      qed
    qed
  qed
  then show ?thesis by simp
qed

lemma sz_sub_self1: "sz_sub 1 1 = 0" "sz_sub (Suc 0) (Suc 0) = 0"
  by (simp_all add: sz_sub_def)

lemma Reverse_seeded_unit:
  fixes F :: "('b::{monoid_add,one}, 'op, 'tape) ADFun"
  assumes run: "Reverse_seeded X 1 (unit_weight (length (dep_taddr F)) i) F = (None, Ps)"
    and i: "i < length (dep_taddr F)" and N: "total_num_var F < 2 ^ 64"
  shows "dep_taddr F ! i < total_num_var F
         \<and> Ps = (replicate (total_num_var F) 0)[dep_taddr F ! i := 1]"
proof -
  let ?m = "length (dep_taddr F)"
  let ?w = "unit_weight ?m i :: 'b list"
  let ?f = "\<lambda>q. filter (\<lambda>i'. dep_taddr F ! i' * 1 + 1 - 1 = q) [0..<?m]"
  have lw: "length ?w = ?m" by (simp add: unit_weight_def)
  have N1: "total_num_var F * 1 < 2 ^ 64" using N by simp
  from Reverse_seeded_short [OF run lw _ N1]
  have len: "length Ps = total_num_var F"
    and dep: "\<forall>i<?m. dep_taddr F ! i < total_num_var F"
    and val: "\<forall>q<total_num_var F. Ps ! q = sum_list (map ((!) ?w) (?f q))" by auto
  have a: "dep_taddr F ! i < total_num_var F" using dep i by simp
  have "Ps ! q = ((replicate (total_num_var F) 0)[dep_taddr F ! i := 1]) ! q"
    if q: "q < total_num_var F" for q
  proof -
    have "sum_list (map ((!) ?w) (?f q)) = (if i \<in> set (?f q) then 1 else 0)"
      by (rule sum_unit_weight) auto
    also have "\<dots> = (if dep_taddr F ! i = q then 1 else 0)" using i by simp
    finally show ?thesis using val q by (simp add: nth_list_update)
  qed
  then have "Ps = (replicate (total_num_var F) 0)[dep_taddr F ! i := 1]"
    using len by (intro nth_equalityI) auto
  with a show ?thesis by simp
qed

lemma myReverse_agrees:
  fixes F :: "('b::{monoid_add,one}, 'op, 'tape) ADFun"
  assumes full: "Reverse X 1 (unit_weight (length (dep_taddr F)) i) F = (Inr dw, B, F0)"
    and sel: "myReverse X 1 w i v F = (None, v', F')"
    and z: "all_zero (Partial F)" and len: "length (Partial F) = total_num_var F"
    and N: "total_num_var F < 2 ^ 64" and n: "length (ind_taddr F) < 2 ^ 64"
    and agree: "sweeps_agree X i (F\<lparr>Partial := (Partial F)[dep_taddr F ! i := 1]\<rparr>)"
  shows "\<forall>it\<in>set (op_inv_index F'). v' ! sz_sub it 1 = dw ! sz_sub it 1"
proof -
  let ?m = "length (dep_taddr F)" and ?n = "length (ind_taddr F)"
  let ?a = "dep_taddr F ! i"
  let ?F1 = "F\<lparr>Partial := (Partial F)[?a := 1]\<rparr>"
  let ?F2 = "myReverseSweep X 0 ?n (total_num_var F) (taylor_col_dim F) 1 i ?F1"
  let ?B = "ReverseSweep X 0 ?n (total_num_var F) (play F) (taylor_col_dim F) (taylor F) 1
              (Partial ?F1)"
  have N1: "total_num_var F * 1 < 2 ^ 64" and n1: "?n * 1 < 2 ^ 64" using N n by simp_all
  \<comment> \<open>the selective sweep, step by step\<close>
  from sel obtain F2 where pr: "myReverse_propagated X 1 i F = (None, F2)"
    by (auto simp: myReverse_def split: option.splits prod.splits)
  from sel pr have ex: "myReverse_extract F2 1 v = (None, v')"
    and inv: "op_inv_index F' = op_inv_index F2"
    by (auto simp: myReverse_def split: option.splits prod.splits)
  from pr have i: "i < ?m"
    by (auto simp: myReverse_propagated_def myReverse_seed_def Let_def
        split: if_splits prod.splits option.splits)
  \<comment> \<open>the full sweep, step by step\<close>
  from full obtain Ps where ps: "Reverse_seeded X 1 (unit_weight ?m i) F = (None, Ps)"
    by (auto simp: Reverse_def Let_def split: prod.splits option.splits)
  from full ps have B: "B = ReverseSweep X (sz_sub 1 1) ?n (total_num_var F) (play F)
                          (taylor_col_dim F) (taylor F) 1 Ps"
    and fe: "Reverse_extract X F 1 (unit_weight ?m i) B (map (fresh X) [0..<sz_mul ?n 1])
               = (None, dw)"
    by (auto simp: Reverse_def Let_def split: prod.splits option.splits)
  from Reverse_seeded_unit [OF ps i N]
  have a: "?a < total_num_var F" and Ps: "Ps = (replicate (total_num_var F) 0)[?a := 1]"
    by auto
  \<comment> \<open>both propagations start from the same buffer\<close>
  have "Partial F = replicate (total_num_var F) 0" using z len by (simp add: all_zero_replicate)
  then have same: "Ps = Partial ?F1" using Ps by simp
  have ix: "sz_sub (sz_add (sz_mul ?a (Suc 0)) (Suc 0)) (Suc 0) = ?a"
    using sz_row_last [OF _ a N1] by simp
  from pr have F2: "F2 = ?F2"
    by (auto simp: myReverse_propagated_def myReverse_seed_def Let_def store_def ix sz_sub_self1
        split: if_splits prod.splits option.splits)
  have B': "B = ?B" using B same by (simp add: sz_sub_self1)
  from agree have ind: "ind_taddr F2 = ind_taddr F"
    and ag: "\<forall>it\<in>set (op_inv_index F2).
               Partial F2 ! (ind_taddr F ! sz_sub it 1) = B ! (ind_taddr F ! sz_sub it 1)"
    unfolding F2 B' by (simp_all add: sweeps_agree_def Let_def)
  \<comment> \<open>the two extractions\<close>
  have lw: "length (unit_weight ?m i :: 'b list) = ?m" by (simp add: unit_weight_def)
  have fx: "ind_taddr F ! j < total_num_var F \<and> dw ! j = B ! (ind_taddr F ! j)" if "j < ?n" for j
    using Reverse_extract_normal [OF fe n1 N1] that lw by simp
  show ?thesis
  proof
    fix it assume "it \<in> set (op_inv_index F')"
    then have it: "it \<in> set (op_inv_index F2)" using inv by simp
    let ?j = "sz_sub it 1"
    from myReverse_extract_normal [OF ex] it
    have j: "?j < ?n"
      and v: "v' ! ?j = Partial F2 ! sz_sub (sz_sub (sz_add (sz_mul (ind_taddr F ! ?j) 1) 1) 1) 0"
      using ind by auto
    have "sz_sub (sz_sub (sz_add (sz_mul (ind_taddr F ! ?j) 1) 1) 1) 0 = ind_taddr F ! ?j"
      using sz_row_rev [OF _ fx [OF j, THEN conjunct1] N1, of 0] by simp
    then have "v' ! ?j = Partial F2 ! (ind_taddr F ! ?j)" using v by simp
    also have "\<dots> = B ! (ind_taddr F ! ?j)" using ag it by simp
    also have "\<dots> = dw ! ?j" using fx [OF j] by simp
    finally show "v' ! ?j = dw ! ?j" .
  qed
qed

text \<open>
  Claim C2. Let \<open>p = 1\<close>, let \<open>i\<close> be a dependent variable, let the member buffer have
  one entry per variable and be all zero on entry, and let the two propagations agree
  on the seeded buffer. When \<^verbatim>\<open>Reverse(1, w)\<close> with \<open>w\<close> zero except \<open>w[i] = 1\<close> returns
  \<open>dw\<close> and \<^verbatim>\<open>myReverse\<close> for \<open>i\<close> returns, then at every position that \<^verbatim>\<open>myReverse\<close>
  writes, the position \<open>it - 1\<close> for an entry \<open>it\<close> of \<^verbatim>\<open>op_inv_index_\<close>, the caller's
  vector holds the value of \<open>dw\<close> at that position. (\<open>Base\<close> is an additive monoid with
  \<open>1\<close>; \<open>total_num_var\<close> and \<open>n\<close> fit in a \<^verbatim>\<open>size_t\<close>.)
\<close>

theorem myReverse_agrees_with_Reverse:
  fixes F :: "('b::{monoid_add,one}, 'op, 'tape) ADFun"
  assumes "Reverse X 1 (unit_weight (length (dep_taddr F)) i) F = (Inr dw, B, F0)"
    and "myReverse X 1 w i v F = (None, v', F')"
    and "all_zero (Partial F)" and "length (Partial F) = total_num_var F"
    and "total_num_var F < 2 ^ 64" and "length (ind_taddr F) < 2 ^ 64"
    and "sweeps_agree X i (F\<lparr>Partial := (Partial F)[dep_taddr F ! i := 1]\<rparr>)"
  shows "\<forall>it\<in>set (op_inv_index F'). v' ! sz_sub it 1 = dw ! sz_sub it 1"
  using assms by (rule myReverse_agrees)

theorem myReverse_agrees_with_Reverse_witness:
  "Reverse product_layer 1 (unit_weight (length (dep_taddr product_fun)) 0) product_fun
     = (Inr [5, 3, 0], [0, 5, 3, 0, 1, 1], product_fun)
   \<and> myReverse product_layer 1 [1] 0 [9, 9, 9] product_fun
     = (None, [5, 3, 9], product_fun\<lparr>op_inv_index := [1, 2], op_mark_index := [5, 4, 2, 1]\<rparr>)
   \<and> all_zero (Partial product_fun)
   \<and> length (Partial product_fun) = total_num_var product_fun
   \<and> sweeps_agree product_layer 0
        (product_fun\<lparr>Partial := (Partial product_fun)[dep_taddr product_fun ! 0 := 1]\<rparr>)
   \<and> [5, 3, 9 :: real] ! sz_sub 1 1 = [5, 3, 0] ! sz_sub 1 1
   \<and> [5, 3, 9 :: real] ! sz_sub 2 1 = [5, 3, 0] ! sz_sub 2 1"
proof -
  let ?F' = "product_fun\<lparr>op_inv_index := [1, 2], op_mark_index := [5, 4, 2, 1]\<rparr>"
  have full: "Reverse product_layer 1 (unit_weight (length (dep_taddr product_fun)) 0) product_fun
                = (Inr [5, 3, 0], [0, 5, 3, 0, 1, 1], product_fun)"
    by (simp add: unit_weight_def model_defs product_layer_def identity_layer_def product_fun_def product_ops_def spec_defs
        upt_rec)
  have sel: "myReverse product_layer 1 [1] 0 [9, 9, 9] product_fun = (None, [5, 3, 9], ?F')"
    by (simp add: model_defs product_layer_def identity_layer_def product_fun_def product_ops_def spec_defs upt_rec)
  have z: "all_zero (Partial product_fun)" by (simp add: all_zero_def product_fun_def)
  have len: "length (Partial product_fun) = total_num_var product_fun"
    and N: "total_num_var product_fun < 2 ^ 64"
    and n: "length (ind_taddr product_fun) < 2 ^ 64"
    by (simp_all add: product_fun_def)
  have agree: "sweeps_agree product_layer 0
        (product_fun\<lparr>Partial := (Partial product_fun)[dep_taddr product_fun ! 0 := 1]\<rparr>)"
    by (simp add: sweeps_agree_def sz_sub_def product_layer_def identity_layer_def product_fun_def product_ops_def spec_defs)
  have inv: "op_inv_index ?F' = [1, 2]" by simp
  from myReverse_agrees_with_Reverse [OF full sel z len N n agree]
  have c: "[5, 3, 9 :: real] ! sz_sub 1 1 = [5, 3, 0] ! sz_sub 1 1"
    "[5, 3, 9 :: real] ! sz_sub 2 1 = [5, 3, 0] ! sz_sub 2 1"
    unfolding inv by simp_all
  show ?thesis by (intro conjI full sel z len agree c)
qed

subsection \<open>The agreement of the two propagation routines of the spec\<close>

lemma chain_rule_frame: "q \<notin> fst ` set ps \<Longrightarrow> chain_rule r ps P ! q = P ! q"
  unfolding chain_rule_def by (induction ps arbitrary: P) (auto split: prod.splits)

lemma chain_rule_zero: "P ! r = 0 \<Longrightarrow> chain_rule r ps P = P"
  unfolding chain_rule_def by (induction ps arbitrary: P) (auto split: prod.splits)

text \<open>
  Operations outside \<open>M\<close> whose result row holds zero, and stays out of reach of the
  operations in \<open>M\<close>, can be skipped.
\<close>

lemma spec_propagate_skip:
  fixes P :: "'b::semiring_0 list"
  assumes "\<forall>k\<in>set ks. k \<notin> M \<longrightarrow> local_partials L t T k \<noteq> [] \<longrightarrow>
             P ! result_row L t k = 0
             \<and> (\<forall>k'\<in>M. result_row L t k \<notin> fst ` set (local_partials L t T k'))"
  shows "spec_propagate L t T ks P = spec_propagate L t T (filter (\<lambda>k. k \<in> M) ks) P"
  using assms
proof (induction ks arbitrary: P)
  case Nil
  then show ?case by (simp add: spec_propagate_def)
next
  case (Cons k ks)
  let ?P' = "chain_rule (result_row L t k) (local_partials L t T k) P"
  show ?case
  proof (cases "k \<in> M")
    case True
    have "\<forall>j\<in>set ks. j \<notin> M \<longrightarrow> local_partials L t T j \<noteq> [] \<longrightarrow>
             ?P' ! result_row L t j = 0
             \<and> (\<forall>k'\<in>M. result_row L t j \<notin> fst ` set (local_partials L t T k'))"
      using Cons.prems True by (auto simp: chain_rule_frame)
    from Cons.IH [OF this] True show ?thesis by (simp add: spec_propagate_def)
  next
    case False
    have "?P' = P"
    proof (cases "local_partials L t T k = []")
      case True
      then show ?thesis by (simp add: chain_rule_def)
    next
      case False
      then have "P ! result_row L t k = 0" using Cons.prems \<open>k \<notin> M\<close> by simp
      then show ?thesis by (rule chain_rule_zero)
    qed
    moreover have "spec_propagate L t T ks P = spec_propagate L t T (filter (\<lambda>k. k \<in> M) ks) P"
      using Cons.prems by (intro Cons.IH) simp
    ultimately show ?thesis using False by (simp add: spec_propagate_def)
  qed
qed

text \<open>
  With a relevance index that is closed backward, the two propagation routines of the
  spec leave the same buffer, in every row, when started from a buffer that is zero
  but for the seed.
\<close>

lemma spec_sweeps_agree:
  fixes F :: "('b::semiring_1, 'op, 'tape) ADFun"
  assumes rc: "relevance_closed L (play F) (taylor F) (total_num_var F) a (relevant i)"
    and z: "all_zero (Partial F)" and len: "length (Partial F) = total_num_var F"
  shows "sweeps_agree (spec_layer X L relevant inv_index) i (F\<lparr>Partial := (Partial F)[a := 1]\<rparr>)"
proof -
  let ?t = "play F" and ?T = "taylor F" and ?ms = "relevant i"
  let ?P = "(Partial F)[a := 1]"
  from rc have order: "?ms = filter (\<lambda>k. k \<in> set ?ms) (rev [0..<num_op L ?t])"
    and closed: "\<forall>k<num_op L ?t. k \<notin> set ?ms \<longrightarrow> local_partials L ?t ?T k \<noteq> [] \<longrightarrow>
           result_row L ?t k < total_num_var F \<and> result_row L ?t k \<noteq> a
           \<and> (\<forall>k'\<in>set ?ms. result_row L ?t k \<notin> fst ` set (local_partials L ?t ?T k'))"
    by (simp_all add: relevance_closed_def)
  have zero: "Partial F ! q = 0" if "q < total_num_var F" for q
    using z len that by (simp add: all_zero_def)
  have "spec_propagate L ?t ?T (rev [0..<num_op L ?t]) ?P
          = spec_propagate L ?t ?T (filter (\<lambda>k. k \<in> set ?ms) (rev [0..<num_op L ?t])) ?P"
    by (rule spec_propagate_skip) (use closed zero in auto)
  then have "spec_propagate L ?t ?T (rev [0..<num_op L ?t]) ?P = spec_propagate L ?t ?T ?ms ?P"
    using order by simp
  then show ?thesis
    by (simp add: sweeps_agree_def spec_layer_def spec_ReverseSweep_def spec_myReverseSweep_def)
qed

text \<open>
  So for the propagation as the spec describes it the agreement of the two sweeps
  need not be assumed: it follows from the closure of the relevance index.
\<close>

corollary myReverse_agrees_spec:
  fixes F :: "('b::semiring_1, 'op, 'tape) ADFun"
  assumes "Reverse (spec_layer X L relevant inv_index) 1 (unit_weight (length (dep_taddr F)) i) F
             = (Inr dw, B, F0)"
    and "myReverse (spec_layer X L relevant inv_index) 1 w i v F = (None, v', F')"
    and "all_zero (Partial F)" and "length (Partial F) = total_num_var F"
    and "total_num_var F < 2 ^ 64" and "length (ind_taddr F) < 2 ^ 64"
    and "relevance_closed L (play F) (taylor F) (total_num_var F) (dep_taddr F ! i) (relevant i)"
  shows "\<forall>it\<in>set (op_inv_index F'). v' ! sz_sub it 1 = dw ! sz_sub it 1"
proof -
  have "sweeps_agree (spec_layer X L relevant inv_index) i
          (F\<lparr>Partial := (Partial F)[dep_taddr F ! i := 1]\<rparr>)"
    using assms(7,3,4) by (rule spec_sweeps_agree)
  with assms(1-6) show ?thesis by (rule myReverse_agrees)
qed

lemma product_relevance_closed:
  "relevance_closed product_ops (play product_fun) (taylor product_fun)
     (total_num_var product_fun) (dep_taddr product_fun ! 0) [5, 4, 2, 1]"
  by (simp add: relevance_closed_def product_fun_def product_ops_def upt_rec all_less_upt)

end
